theory Spec2Isabelle
  imports Main "HOL-Library.Word" "HOL-Library.Sublist" "HOL-Library.Log_Nat"
begin

unbundle bit_operations_syntax

section \<open>The execution tracer of \<^verbatim>\<open>src/runtime/trace.go\<close>\<close>

text \<open>
  A shallow embedding of the tracer core: the base-128 writer, the trace buffers and
  their queues, the event encoder, the string and stack interning tables, the clock
  capture of \<^verbatim>\<open>StopTrace\<close>, the reader \<^verbatim>\<open>ReadTrace\<close> and the syscall-exit hook.

  Conventions. Go's \<^verbatim>\<open>uint64\<close>, \<^verbatim>\<open>uint32\<close> and \<^verbatim>\<open>byte\<close> are words of that width;
  \<^verbatim>\<open>int64\<close> and \<^verbatim>\<open>int32\<close> are words read with \<open>sint\<close> and compared with \<open><s\<close>; a
  conversion between integer types is \<open>ucast\<close> (from unsigned) or \<open>scast\<close> (from signed).
  The target is a 64-bit one, so \<^verbatim>\<open>uintptr\<close> is a 64-bit word. Go's \<^verbatim>\<open>int\<close> holds
  lengths and offsets here and is \<open>nat\<close> where it is one of those and \<open>int\<close> otherwise.
  A pointer to a trace buffer is an address, \<open>0\<close> for nil, and the buffers live in a
  store from addresses to buffers. A \<^verbatim>\<open>throw\<close> and a run-time panic end the process:
  they are the \<open>Inl\<close> results of the functions below.
  What the runtime supplies from outside this file is a parameter: the readings of
  \<^verbatim>\<open>cputicks()\<close> and \<^verbatim>\<open>nanotime()\<close>, the address \<^verbatim>\<open>sysAlloc\<close> returns, the hash
  \<^verbatim>\<open>memhash\<close>, the program counters the unwinder captures, and the architecture.
  Locks are not modelled: every function is one uninterrupted run of its body.
\<close>

subsection \<open>Types and constants\<close>

type_synonym byte = "8 word"
type_synonym uint32 = "32 word"
type_synonym uint64 = "64 word"
type_synonym int32 = "32 word"
type_synonym int64 = "64 word"
type_synonym uintptr = "64 word"
type_synonym traceBufPtr = nat
type_synonym guintptr = nat
type_synonym gostring = "byte list"

datatype fatal =
    Throw string
  | IndexOutOfRange
  | SliceBoundsOutOfRange
  | NilDereference

datatype goarch = I386 | Amd64 | OtherArch

definition Is386 :: "goarch \<Rightarrow> uint64" where
  "Is386 a = (if a = I386 then 1 else 0)"

definition IsAmd64 :: "goarch \<Rightarrow> uint64" where
  "IsAmd64 a = (if a = Amd64 then 1 else 0)"

definition traceEvBatch :: byte where "traceEvBatch = 1"
definition traceEvFrequency :: byte where "traceEvFrequency = 2"
definition traceEvStack :: byte where "traceEvStack = 3"
definition traceEvGoBlock :: byte where "traceEvGoBlock = 20"
definition traceEvGoSysExit :: byte where "traceEvGoSysExit = 29"
definition traceEvString :: byte where "traceEvString = 37"
definition traceEvUserTaskCreate :: byte where "traceEvUserTaskCreate = 45"
definition traceEvCPUSample :: byte where "traceEvCPUSample = 49"

definition traceTickDiv :: "goarch \<Rightarrow> uint64" where
  "traceTickDiv a = 16 + 48 * (Is386 a OR IsAmd64 a)"

definition traceStackSize :: nat where "traceStackSize = 128"
definition traceGlobProc :: int32 where "traceGlobProc = - 1"
definition traceBytesPerNumber :: nat where "traceBytesPerNumber = 10"
definition traceArgCountShift :: nat where "traceArgCountShift = 6"

text \<open>
  \<^verbatim>\<open>len(buf.arr)\<close> is \<^verbatim>\<open>64<<10 - unsafe.Sizeof(traceBufHeader{})\<close>. On the 64-bit target
  the header is a pointer, a \<^verbatim>\<open>uint64\<close>, an \<^verbatim>\<open>int\<close> and \<^verbatim>\<open>traceStackSize\<close> pointers of
  8 bytes each.
\<close>

definition traceBufHeaderSize :: nat where
  "traceBufHeaderSize = 8 + 8 + 8 + traceStackSize * 8"

definition traceBufArrLen :: nat where
  "traceBufArrLen = 64 * 2 ^ 10 - traceBufHeaderSize"

subsection \<open>The base-128 writer\<close>

text \<open>
  \<^verbatim>\<open>
  func traceAppend(buf []byte, v uint64) []byte {
      for ; v >= 0x80; v >>= 7 {
          buf = append(buf, 0x80|byte(v))
      }
      buf = append(buf, byte(v))
      return buf
  }
  \<close>
\<close>

function traceAppend :: "byte list \<Rightarrow> uint64 \<Rightarrow> byte list" where
  "traceAppend buf v =
     (if 0x80 \<le> v then traceAppend (buf @ [0x80 OR ucast v]) (drop_bit 7 v)
      else buf @ [ucast v])"
  by pat_completeness auto
termination
proof (relation "measure (\<lambda>(buf, v). unat v)")
  show "wf (measure (\<lambda>(buf, v). unat v))" by simp
next
  fix buf :: "byte list" and v :: uint64
  assume "0x80 \<le> v"
  then have "128 \<le> unat v" by (simp add: word_le_nat_alt)
  then have "unat v div 128 < unat v" by simp
  then show "((buf @ [0x80 OR ucast v], drop_bit 7 v), (buf, v)) \<in> measure (\<lambda>(buf, v). unat v)"
    by (simp add: drop_bit_eq_div unat_div)
qed

text \<open>
  The trace buffer. The scratch array \<^verbatim>\<open>stk\<close> of the header, into which the unwinder
  writes, is left out: the captured program counters are a parameter of the functions
  that use them.
\<close>

record traceBuf =
  link :: traceBufPtr
  lastTicks :: uint64
  pos :: nat
  arr :: "byte list"

text \<open>
  \<^verbatim>\<open>
  func (buf *traceBuf) byte(v byte) {
      buf.arr[buf.pos] = v
      buf.pos++
  }
  \<close>
  An index outside the array is Go's run-time panic.
\<close>

definition byte' :: "traceBuf \<Rightarrow> byte \<Rightarrow> fatal + traceBuf" where
  "byte' b v =
     (if pos b < length (arr b)
      then Inr (b\<lparr>arr := (arr b)[pos b := v], pos := pos b + 1\<rparr>)
      else Inl IndexOutOfRange)"

text \<open>
  \<^verbatim>\<open>
  func (buf *traceBuf) varint(v uint64) {
      pos := buf.pos
      for ; v >= 0x80; v >>= 7 {
          buf.arr[pos] = 0x80 | byte(v)
          pos++
      }
      buf.arr[pos] = byte(v)
      pos++
      buf.pos = pos
  }
  \<close>
  \<open>varint_loop\<close> is the loop with the store after it, on the array and the local
  \<^verbatim>\<open>pos\<close>.
\<close>

function varint_loop :: "byte list \<Rightarrow> nat \<Rightarrow> uint64 \<Rightarrow> fatal + (byte list \<times> nat)" where
  "varint_loop a p v =
     (if 0x80 \<le> v then
        (if p < length a then varint_loop (a[p := 0x80 OR ucast v]) (p + 1) (drop_bit 7 v)
         else Inl IndexOutOfRange)
      else
        (if p < length a then Inr (a[p := ucast v], p + 1)
         else Inl IndexOutOfRange))"
  by pat_completeness auto
termination
proof (relation "measure (\<lambda>(a, p, v). unat v)")
  show "wf (measure (\<lambda>(a, p, v). unat v))" by simp
next
  fix a :: "byte list" and p :: nat and v :: uint64
  assume "0x80 \<le> v"
  then have "128 \<le> unat v" by (simp add: word_le_nat_alt)
  then have "unat v div 128 < unat v" by simp
  then show "((a[p := 0x80 OR ucast v], p + 1, drop_bit 7 v), (a, p, v))
               \<in> measure (\<lambda>(a, p, v). unat v)"
    by (simp add: drop_bit_eq_div unat_div)
qed

definition varint :: "traceBuf \<Rightarrow> uint64 \<Rightarrow> fatal + traceBuf" where
  "varint b v =
     (case varint_loop (arr b) (pos b) v of
        Inl e \<Rightarrow> Inl e
      | Inr (a, p) \<Rightarrow> Inr (b\<lparr>arr := a, pos := p\<rparr>))"

text \<open>
  The reader's side of the format, from the specification's words: little-endian
  base 128, the high bit of a byte says that more bytes follow. \<open>leb128_decode\<close> reads
  one number off the front of a byte sequence and returns it with the bytes after it.
\<close>

fun leb128_decode :: "byte list \<Rightarrow> (uint64 \<times> byte list) option" where
  "leb128_decode [] = None"
| "leb128_decode (x # xs) =
     (if bit x 7 then
        (case leb128_decode xs of
           None \<Rightarrow> None
         | Some (v, rest) \<Rightarrow> Some (ucast (x AND 0x7F) OR push_bit 7 v, rest))
      else Some (ucast x, xs))"

subsection \<open>Fatal results in sequence\<close>

definition bindE :: "fatal + 'a \<Rightarrow> ('a \<Rightarrow> fatal + 'b) \<Rightarrow> fatal + 'b" where
  "bindE m f = (case m of Inl e \<Rightarrow> Inl e | Inr x \<Rightarrow> f x)"

text \<open>\<^verbatim>\<open>for _, a := range args { buf.varint(a) }\<close>\<close>

fun varints :: "traceBuf \<Rightarrow> uint64 list \<Rightarrow> fatal + traceBuf" where
  "varints b [] = Inr b"
| "varints b (x # xs) = bindE (varint b x) (\<lambda>b1. varints b1 xs)"

text \<open>
  \<^verbatim>\<open>buf.pos += copy(buf.arr[buf.pos:], src)\<close>: the slice expression panics when
  \<^verbatim>\<open>pos\<close> is beyond the array, and \<^verbatim>\<open>copy\<close> moves as many bytes as both sides hold.
\<close>

definition copy_in :: "traceBuf \<Rightarrow> byte list \<Rightarrow> fatal + traceBuf" where
  "copy_in b src =
     (if length (arr b) < pos b then Inl SliceBoundsOutOfRange
      else let n = min (length (arr b) - pos b) (length src)
           in Inr (b\<lparr>arr := take (pos b) (arr b) @ take n src @ drop (pos b + n) (arr b),
                    pos := pos b + n\<rparr>))"

subsection \<open>The stack interning table\<close>

text \<open>
  A \<^verbatim>\<open>traceStack\<close> record with the program counters stored behind it. The chain of a
  bucket, linked through \<^verbatim>\<open>link\<close> in the source, is the list of its records from the
  bucket head on; the fields are prefixed, \<^verbatim>\<open>stk\<close> being \<open>stk_pcs\<close>. The region
  allocator \<^verbatim>\<open>mem\<close> of the table is not modelled: \<^verbatim>\<open>newStack\<close> gives a record.
\<close>

record traceStack =
  stk_hash :: uintptr
  stk_id :: uint32
  stk_n :: nat
  stk_pcs :: "uintptr list"

record traceStackTable =
  seq :: uint32
  tab :: "nat \<Rightarrow> traceStack list"

text \<open>
  \<^verbatim>\<open>
  func (ts *traceStack) stack() []uintptr {
      return (*[traceStackSize]uintptr)(unsafe.Pointer(&ts.stk))[:ts.n]
  }
  \<close>
  Slicing the array of \<^verbatim>\<open>traceStackSize\<close> words above its length panics.
\<close>

definition stack :: "traceStack \<Rightarrow> fatal + uintptr list" where
  "stack ts =
     (if stk_n ts \<le> traceStackSize then Inr (take (stk_n ts) (stk_pcs ts))
      else Inl SliceBoundsOutOfRange)"

text \<open>
  The inner loop of \<^verbatim>\<open>find\<close>: \<^verbatim>\<open>for i, stkpc := range stk.stack()\<close> leaves the record
  at the first \<^verbatim>\<open>stkpc != pcs[i]\<close>. It runs only when \<^verbatim>\<open>stk.n == len(pcs)\<close>.
\<close>

fun same_pcs :: "uintptr list \<Rightarrow> uintptr list \<Rightarrow> bool" where
  "same_pcs [] pcs = True"
| "same_pcs (stkpc # rest) [] = False"
| "same_pcs (stkpc # rest) (pc # pcs) = (if stkpc \<noteq> pc then False else same_pcs rest pcs)"

text \<open>
  \<^verbatim>\<open>
  func (tab *traceStackTable) find(pcs []uintptr, hash uintptr) uint32 {
      part := int(hash % uintptr(len(tab.tab)))
  Search:
      for stk := tab.tab[part].ptr(); stk != nil; stk = stk.link.ptr() {
          if stk.hash == hash && stk.n == len(pcs) {
              for i, stkpc := range stk.stack() {
                  if stkpc != pcs[i] {
                      continue Search
                  }
              }
              return stk.id
          }
      }
      return 0
  }
  \<close>
\<close>

fun find_chain :: "traceStack list \<Rightarrow> uintptr list \<Rightarrow> uintptr \<Rightarrow> fatal + uint32" where
  "find_chain [] pcs hash = Inr 0"
| "find_chain (stk # rest) pcs hash =
     (if stk_hash stk = hash \<and> stk_n stk = length pcs then
        bindE (stack stk) (\<lambda>spcs.
          if same_pcs spcs pcs then Inr (stk_id stk) else find_chain rest pcs hash)
      else find_chain rest pcs hash)"

definition tab_len :: nat where "tab_len = 2 ^ 13"

definition find' :: "traceStackTable \<Rightarrow> uintptr list \<Rightarrow> uintptr \<Rightarrow> fatal + uint32" where
  "find' t pcs hash = (let part = unat hash mod tab_len in find_chain (tab t part) pcs hash)"

text \<open>
  \<^verbatim>\<open>
  func (tab *traceStackTable) put(pcs []uintptr) uint32 {
      if len(pcs) == 0 {
          return 0
      }
      hash := memhash(unsafe.Pointer(&pcs[0]), 0, uintptr(len(pcs))*unsafe.Sizeof(pcs[0]))
      // First, search the hashtable w/o the mutex.
      if id := tab.find(pcs, hash); id != 0 {
          return id
      }
      // Now, double check under the mutex.
      lock(&tab.lock)
      if id := tab.find(pcs, hash); id != 0 {
          unlock(&tab.lock)
          return id
      }
      // Create new record.
      tab.seq++
      stk := tab.newStack(len(pcs))
      stk.hash = hash
      stk.id = tab.seq
      stk.n = len(pcs)
      stkpc := stk.stack()
      for i, pc := range pcs {
          stkpc[i] = pc
      }
      part := int(hash % uintptr(len(tab.tab)))
      stk.link = tab.tab[part]
      atomicstorep(unsafe.Pointer(&tab.tab[part]), unsafe.Pointer(stk))
      unlock(&tab.lock)
      return stk.id
  }
  \<close>
  \<open>memhash\<close> is the runtime's hash of the bytes of \<open>pcs\<close>, a parameter. The copy loop
  leaves \<open>pcs\<close> in the record.
\<close>

definition put ::
  "(uintptr list \<Rightarrow> uintptr) \<Rightarrow> traceStackTable \<Rightarrow> uintptr list
     \<Rightarrow> fatal + (uint32 \<times> traceStackTable)" where
  "put memhash t pcs =
     (if length pcs = 0 then Inr (0, t)
      else
        let hash = memhash pcs in
        bindE (find' t pcs hash) (\<lambda>id1.
          if id1 \<noteq> 0 then Inr (id1, t)
          else bindE (find' t pcs hash) (\<lambda>id2.
            if id2 \<noteq> 0 then Inr (id2, t)
            else
              let t1 = t\<lparr>seq := seq t + 1\<rparr>;
                  stk = \<lparr>stk_hash = hash, stk_id = seq t1, stk_n = length pcs, stk_pcs = pcs\<rparr>
              in bindE (stack stk) (\<lambda>stkpc.
                   let part = unat hash mod tab_len
                   in Inr (stk_id stk, t1\<lparr>tab := (tab t1)(part := stk # tab t1 part)\<rparr>)))))"

text \<open>The zero value \<^verbatim>\<open>traceStackTable{}\<close>.\<close>

definition traceStackTable0 :: traceStackTable where
  "traceStackTable0 = \<lparr>seq = 0, tab = (\<lambda>part. [])\<rparr>"

text \<open>A run of calls of \<open>put\<close>, one after the other, with the ids they return.\<close>

fun puts :: "(uintptr list \<Rightarrow> uintptr) \<Rightarrow> traceStackTable \<Rightarrow> uintptr list list
     \<Rightarrow> fatal + (uint32 list \<times> traceStackTable)" where
  "puts memhash t [] = Inr ([], t)"
| "puts memhash t (pcs # rest) =
     bindE (put memhash t pcs) (\<lambda>(i, t1).
       bindE (puts memhash t1 rest) (\<lambda>(ids, t2). Inr (i # ids, t2)))"

text \<open>
  \<^verbatim>\<open>
  func traceStackID(mp *m, buf []uintptr, skip int) uint64 {
      gp := getg()
      curgp := mp.curg
      var nstk int
      if curgp == gp {
          nstk = callers(skip+1, buf)
      } else if curgp != nil {
          nstk = gcallers(curgp, skip, buf)
      }
      if nstk > 0 {
          nstk-- // skip runtime.goexit
      }
      if nstk > 0 && curgp.goid == 1 {
          nstk-- // skip runtime.main
      }
      id := trace.stackTab.put(buf[:nstk])
      return uint64(id)
  }
  \<close>
  The unwinder is outside this file: \<open>unwound\<close> is what it wrote into \<open>buf\<close> (its
  \<^verbatim>\<open>nstk\<close> program counters, none when \<^verbatim>\<open>curgp\<close> is nil) and \<open>curg_goid\<close> is
  \<^verbatim>\<open>curgp.goid\<close>.
\<close>

record unwind =
  unwound :: "uintptr list"
  curg_goid :: int64

definition traceStackID ::
  "(uintptr list \<Rightarrow> uintptr) \<Rightarrow> traceStackTable \<Rightarrow> unwind
     \<Rightarrow> fatal + (uint64 \<times> traceStackTable)" where
  "traceStackID memhash t mp =
     (let nstk = length (unwound mp);
          nstk1 = (if 0 < nstk then nstk - 1 else nstk);
          nstk2 = (if 0 < nstk1 \<and> curg_goid mp = 1 then nstk1 - 1 else nstk1)
      in bindE (put memhash t (take nstk2 (unwound mp))) (\<lambda>(i, t1). Inr (ucast i, t1)))"

subsection \<open>The global tracing context\<close>

text \<open>
  The \<^verbatim>\<open>trace\<close> struct, with the fields the modelled functions read or write. The
  field \<^verbatim>\<open>empty\<close> is \<open>empty'\<close> and \<^verbatim>\<open>buf\<close> is \<open>buf'\<close>. Two fields are added: \<open>mem\<close>,
  the memory outside the garbage-collected heap in which the trace buffers live (what
  \<^verbatim>\<open>sysAlloc\<close> hands out), and \<open>tracebuf\<close>, the field \<^verbatim>\<open>tracebuf\<close> of every \<^verbatim>\<open>p\<close> of the
  scheduler by the index of the \<^verbatim>\<open>p\<close>, so that every place that owns a buffer is part
  of one state.
\<close>

record trace =
  lockOwner :: guintptr
  enabled :: bool
  shutdown :: bool
  headerWritten :: bool
  footerWritten :: bool
  ticksStart :: int64
  ticksEnd :: int64
  timeStart :: int64
  timeEnd :: int64
  reading :: traceBufPtr
  empty' :: traceBufPtr
  fullHead :: traceBufPtr
  fullTail :: traceBufPtr
  reader :: guintptr
  stackTab :: traceStackTable
  cpuLogBuf :: traceBufPtr
  strings :: "gostring \<rightharpoonup> uint64"
  stringSeq :: uint64
  buf' :: traceBufPtr
  tracebuf :: "nat \<Rightarrow> traceBufPtr"
  mem :: "traceBufPtr \<rightharpoonup> traceBuf"

text \<open>The state before the first \<^verbatim>\<open>StartTrace\<close>: every field is zero, no buffer exists.\<close>

definition trace0 :: trace where
  "trace0 =
     \<lparr>lockOwner = 0, enabled = False, shutdown = False, headerWritten = False,
      footerWritten = False, ticksStart = 0, ticksEnd = 0, timeStart = 0, timeEnd = 0,
      reading = 0, empty' = 0, fullHead = 0, fullTail = 0, reader = 0,
      stackTab = traceStackTable0, cpuLogBuf = 0, strings = Map.empty, stringSeq = 0,
      buf' = 0, tracebuf = (\<lambda>i. 0), mem = Map.empty\<rparr>"

text \<open>Reading or writing a field through a buffer pointer: nil and unmapped memory fault.\<close>

definition ptr :: "trace \<Rightarrow> traceBufPtr \<Rightarrow> fatal + traceBuf" where
  "ptr tr p =
     (if p = 0 then Inl NilDereference
      else case mem tr p of None \<Rightarrow> Inl NilDereference | Some b \<Rightarrow> Inr b)"

text \<open>
  What a call reads from outside this file: \<open>flush_cputicks\<close> is \<^verbatim>\<open>cputicks()\<close> as
  \<^verbatim>\<open>traceFlush\<close> reads it and \<open>sysAlloc\<close> the address \<^verbatim>\<open>sysAlloc\<close> returns (0 when out of
  memory), both used only if the call flushes; \<open>cputicks\<close> is \<^verbatim>\<open>cputicks()\<close> as
  \<^verbatim>\<open>traceEventLocked\<close> reads it; \<open>mp\<close> is what the unwinder captures for this call.
\<close>

record env =
  flush_cputicks :: int64
  sysAlloc :: traceBufPtr
  cputicks :: int64
  mp :: unwind

text \<open>
  \<^verbatim>\<open>
  func traceFullQueue(buf traceBufPtr) {
      buf.ptr().link = 0
      if trace.fullHead == 0 {
          trace.fullHead = buf
      } else {
          trace.fullTail.ptr().link = buf
      }
      trace.fullTail = buf
  }
  \<close>
\<close>

definition traceFullQueue :: "trace \<Rightarrow> traceBufPtr \<Rightarrow> fatal + trace" where
  "traceFullQueue tr b =
     bindE (ptr tr b) (\<lambda>bb.
       let tr1 = tr\<lparr>mem := (mem tr)(b \<mapsto> bb\<lparr>link := 0\<rparr>)\<rparr> in
       if fullHead tr1 = 0 then Inr (tr1\<lparr>fullHead := b, fullTail := b\<rparr>)
       else bindE (ptr tr1 (fullTail tr1)) (\<lambda>tl.
              Inr (tr1\<lparr>mem := (mem tr1)(fullTail tr1 \<mapsto> tl\<lparr>link := b\<rparr>),
                       fullTail := b\<rparr>)))"

text \<open>
  \<^verbatim>\<open>
  func traceFullDequeue() traceBufPtr {
      buf := trace.fullHead
      if buf == 0 {
          return 0
      }
      trace.fullHead = buf.ptr().link
      if trace.fullHead == 0 {
          trace.fullTail = 0
      }
      buf.ptr().link = 0
      return buf
  }
  \<close>
\<close>

definition traceFullDequeue :: "trace \<Rightarrow> fatal + (trace \<times> traceBufPtr)" where
  "traceFullDequeue tr =
     (let b = fullHead tr in
      if b = 0 then Inr (tr, 0)
      else bindE (ptr tr b) (\<lambda>bb.
        let tr1 = tr\<lparr>fullHead := link bb\<rparr>;
            tr2 = (if fullHead tr1 = 0 then tr1\<lparr>fullTail := 0\<rparr> else tr1)
        in Inr (tr2\<lparr>mem := (mem tr2)(b \<mapsto> bb\<lparr>link := 0\<rparr>)\<rparr>, b)))"

text \<open>The memory \<^verbatim>\<open>sysAlloc\<close> returns is zeroed.\<close>

definition zeroBuf :: traceBuf where
  "zeroBuf = \<lparr>link = 0, lastTicks = 0, pos = 0, arr = replicate traceBufArrLen 0\<rparr>"

text \<open>
  \<^verbatim>\<open>
  func traceFlush(buf traceBufPtr, pid int32) traceBufPtr {
      owner := trace.lockOwner
      dolock := owner == nil || owner != getg().m.curg
      if dolock {
          lock(&trace.lock)
      }
      if buf != 0 {
          traceFullQueue(buf)
      }
      if trace.empty != 0 {
          buf = trace.empty
          trace.empty = buf.ptr().link
      } else {
          buf = traceBufPtr(sysAlloc(unsafe.Sizeof(traceBuf{}), &memstats.other_sys))
          if buf == 0 {
              throw("trace: out of memory")
          }
      }
      bufp := buf.ptr()
      bufp.link.set(nil)
      bufp.pos = 0

      // initialize the buffer for a new batch
      ticks := uint64(cputicks()) / traceTickDiv
      if ticks == bufp.lastTicks {
          ticks = bufp.lastTicks + 1
      }
      bufp.lastTicks = ticks
      bufp.byte(traceEvBatch | 1<<traceArgCountShift)
      bufp.varint(uint64(pid))
      bufp.varint(ticks)

      if dolock {
          unlock(&trace.lock)
      }
      return buf
  }
  \<close>
\<close>

text \<open>
  The model follows the body in three groups: the buffer taken from the empty list or
  from \<^verbatim>\<open>sysAlloc\<close> (\<open>traceFlush_take\<close>), its initialisation for a new batch
  (\<open>traceFlush_init\<close>), and the whole function.
\<close>

definition traceFlush_take :: "trace \<Rightarrow> env \<Rightarrow> fatal + (trace \<times> traceBufPtr)" where
  "traceFlush_take tr1 e =
     (if empty' tr1 \<noteq> 0 then
        bindE (ptr tr1 (empty' tr1)) (\<lambda>eb. Inr (tr1\<lparr>empty' := link eb\<rparr>, empty' tr1))
      else if sysAlloc e = 0 then Inl (Throw ''trace: out of memory'')
      else Inr (tr1\<lparr>mem := (mem tr1)(sysAlloc e \<mapsto> zeroBuf)\<rparr>, sysAlloc e))"

definition traceFlush_init :: "goarch \<Rightarrow> traceBuf \<Rightarrow> int32 \<Rightarrow> int64 \<Rightarrow> fatal + traceBuf" where
  "traceFlush_init a bufp pid now =
     (let bufp1 = bufp\<lparr>link := 0, pos := 0\<rparr>;
          ticks0 = now div traceTickDiv a;
          ticks = (if ticks0 = lastTicks bufp1 then lastTicks bufp1 + 1 else ticks0);
          bufp2 = bufp1\<lparr>lastTicks := ticks\<rparr>
      in
      bindE (byte' bufp2 (traceEvBatch OR push_bit traceArgCountShift 1)) (\<lambda>b3.
      bindE (varint b3 (scast pid)) (\<lambda>b4.
        varint b4 ticks)))"

definition traceFlush ::
  "goarch \<Rightarrow> trace \<Rightarrow> traceBufPtr \<Rightarrow> int32 \<Rightarrow> env \<Rightarrow> fatal + (trace \<times> traceBufPtr)" where
  "traceFlush a tr b pid e =
     bindE (if b \<noteq> 0 then traceFullQueue tr b else Inr tr) (\<lambda>tr1.
     bindE (traceFlush_take tr1 e) (\<lambda>(tr2, nb).
     bindE (ptr tr2 nb) (\<lambda>bufp.
     bindE (traceFlush_init a bufp pid (flush_cputicks e)) (\<lambda>b5.
       Inr (tr2\<lparr>mem := (mem tr2)(nb \<mapsto> b5)\<rparr>, nb)))))"

text \<open>
  \<^verbatim>\<open>
  func traceEventLocked(extraBytes int, mp *m, pid int32, bufp *traceBufPtr, ev byte,
                        stackID uint32, skip int, args ...uint64) {
      buf := bufp.ptr()
      // TODO: test on non-zero extraBytes param.
      maxSize := 2 + 5*traceBytesPerNumber + extraBytes
      if buf == nil || len(buf.arr)-buf.pos < maxSize {
          buf = traceFlush(traceBufPtrOf(buf), pid).ptr()
          bufp.set(buf)
      }

      // NOTE: ticks might be same after tick division, although the real cputicks is
      // linear growth.
      ticks := uint64(cputicks()) / traceTickDiv
      tickDiff := ticks - buf.lastTicks
      if tickDiff == 0 {
          ticks = buf.lastTicks + 1
          tickDiff = 1
      }

      buf.lastTicks = ticks
      narg := byte(len(args))
      if stackID != 0 || skip >= 0 {
          narg++
      }
      // We have only 2 bits for number of arguments.
      // If number is >= 3, then the event type is followed by event length in bytes.
      if narg > 3 {
          narg = 3
      }
      startPos := buf.pos
      buf.byte(ev | narg<<traceArgCountShift)
      var lenp *byte
      if narg == 3 {
          // Reserve the byte for length assuming that length < 128.
          buf.varint(0)
          lenp = &buf.arr[buf.pos-1]
      }
      buf.varint(tickDiff)
      for _, a := range args {
          buf.varint(a)
      }
      if stackID != 0 {
          buf.varint(uint64(stackID))
      } else if skip == 0 {
          buf.varint(0)
      } else if skip > 0 {
          buf.varint(traceStackID(mp, buf.stk[:], skip))
      }
      evSize := buf.pos - startPos
      if evSize > maxSize {
          throw("invalid length of trace event")
      }
      if lenp != nil {
          // Fill in actual length.
          *lenp = byte(evSize - 2)
      }
  }
  \<close>
  The pointer \<^verbatim>\<open>bufp\<close> to the owner's buffer pointer is the value \<open>bufp\<close> it holds on
  entry, and the second component of the result is the value it holds on return.
  \<open>traceEventLocked_room\<close> is the first statement group (the buffer to write to),
  \<open>traceEventLocked_narg\<close> the computation of \<^verbatim>\<open>narg\<close>, \<open>traceEventLocked_write\<close> the
  statements from the reading of the clock on, which work on the buffer \<^verbatim>\<open>buf\<close> and,
  through \<^verbatim>\<open>traceStackID\<close>, on \<^verbatim>\<open>trace.stackTab\<close>, and \<open>traceEventLocked\<close> the whole
  function.
\<close>

definition traceEventLocked_room ::
  "goarch \<Rightarrow> trace \<Rightarrow> int \<Rightarrow> int32 \<Rightarrow> traceBufPtr \<Rightarrow> env \<Rightarrow> fatal + (trace \<times> traceBufPtr)" where
  "traceEventLocked_room a tr maxSize pid bufp e =
     (if bufp = 0 then traceFlush a tr bufp pid e
      else bindE (ptr tr bufp) (\<lambda>b0.
             if int (length (arr b0)) - int (pos b0) < maxSize then traceFlush a tr bufp pid e
             else Inr (tr, bufp)))"

definition traceEventLocked_narg :: "uint64 list \<Rightarrow> uint32 \<Rightarrow> int \<Rightarrow> byte" where
  "traceEventLocked_narg args stackID skip =
     (let narg0 = (of_nat (length args) :: byte);
          narg1 = (if stackID \<noteq> 0 \<or> 0 \<le> skip then narg0 + 1 else narg0)
      in if 3 < narg1 then 3 else narg1)"

definition traceEventLocked_write ::
  "goarch \<Rightarrow> (uintptr list \<Rightarrow> uintptr) \<Rightarrow> traceStackTable \<Rightarrow> traceBuf \<Rightarrow> int \<Rightarrow> byte
     \<Rightarrow> uint32 \<Rightarrow> int \<Rightarrow> uint64 list \<Rightarrow> env \<Rightarrow> fatal + (traceStackTable \<times> traceBuf)" where
  "traceEventLocked_write a memhash t b maxSize ev stackID skip args e =
     (let ticks0 = cputicks e div traceTickDiv a;
          tickDiff0 = ticks0 - lastTicks b;
          ticks = (if tickDiff0 = 0 then lastTicks b + 1 else ticks0);
          tickDiff = (if tickDiff0 = 0 then 1 else tickDiff0);
          b1 = b\<lparr>lastTicks := ticks\<rparr>;
          narg = traceEventLocked_narg args stackID skip;
          startPos = pos b1
      in
      bindE (byte' b1 (ev OR push_bit traceArgCountShift narg)) (\<lambda>b2.
      bindE (if narg = 3 then varint b2 0 else Inr b2) (\<lambda>b3.
      bindE (varint b3 tickDiff) (\<lambda>b4.
      bindE (varints b4 args) (\<lambda>b5.
      bindE (if stackID \<noteq> 0 then bindE (varint b5 (ucast stackID)) (\<lambda>b6. Inr (t, b6))
             else if skip = 0 then bindE (varint b5 0) (\<lambda>b6. Inr (t, b6))
             else if 0 < skip then
               bindE (traceStackID memhash t (mp e)) (\<lambda>(sid, t1).
               bindE (varint b5 sid) (\<lambda>b6. Inr (t1, b6)))
             else Inr (t, b5)) (\<lambda>(t2, b6).
        let evSize = int (pos b6) - int startPos in
        if maxSize < evSize then Inl (Throw ''invalid length of trace event'')
        else
          Inr (t2, if narg = 3
                   then b6\<lparr>arr := (arr b6)[pos b3 - 1 := of_int (evSize - 2)]\<rparr>
                   else b6)))))))"

definition traceEventLocked ::
  "goarch \<Rightarrow> (uintptr list \<Rightarrow> uintptr) \<Rightarrow> trace \<Rightarrow> int \<Rightarrow> int32 \<Rightarrow> traceBufPtr \<Rightarrow> byte
     \<Rightarrow> uint32 \<Rightarrow> int \<Rightarrow> uint64 list \<Rightarrow> env \<Rightarrow> fatal + (trace \<times> traceBufPtr)" where
  "traceEventLocked a memhash tr extraBytes pid bufp ev stackID skip args e =
     (let maxSize = 2 + 5 * int traceBytesPerNumber + extraBytes in
      bindE (traceEventLocked_room a tr maxSize pid bufp e) (\<lambda>(tr1, bp).
      bindE (ptr tr1 bp) (\<lambda>b.
      bindE (traceEventLocked_write a memhash (stackTab tr1) b maxSize ev stackID skip args e)
        (\<lambda>(t2, b7).
          Inr (tr1\<lparr>stackTab := t2, mem := (mem tr1)(bp \<mapsto> b7)\<rparr>, bp)))))"

text \<open>
  \<^verbatim>\<open>
  func traceString(bufp *traceBufPtr, pid int32, s string) (uint64, *traceBufPtr) {
      if s == "" {
          return 0, bufp
      }
      ...
      if id, ok := trace.strings[s]; ok {
          ...
          return id, bufp
      }

      trace.stringSeq++
      id := trace.stringSeq
      trace.strings[s] = id
      ...
      buf := bufp.ptr()
      size := 1 + 2*traceBytesPerNumber + len(s)
      if buf == nil || len(buf.arr)-buf.pos < size {
          buf = traceFlush(traceBufPtrOf(buf), pid).ptr()
          bufp.set(buf)
      }
      buf.byte(traceEvString)
      buf.varint(id)

      // double-check the string and the length can fit.
      // Otherwise, truncate the string.
      slen := len(s)
      if room := len(buf.arr) - buf.pos; room < slen+traceBytesPerNumber {
          slen = room
      }

      buf.varint(uint64(slen))
      buf.pos += copy(buf.arr[buf.pos:], s[:slen])

      bufp.set(buf)
      return id, bufp
  }
  \<close>
  A Go string is its bytes. \<^verbatim>\<open>s[:slen]\<close> panics when \<^verbatim>\<open>slen\<close> is beyond the string.
  The test for room before the write is the statement group of \<^verbatim>\<open>traceEventLocked\<close>
  with \<^verbatim>\<open>size\<close> for \<^verbatim>\<open>maxSize\<close>, so it is \<open>traceEventLocked_room\<close> again.
  \<open>traceString_write\<close> is the statements from \<^verbatim>\<open>buf.byte(traceEvString)\<close> to the copy.
\<close>

definition traceString_write :: "traceBuf \<Rightarrow> uint64 \<Rightarrow> gostring \<Rightarrow> fatal + traceBuf" where
  "traceString_write b i s =
     bindE (byte' b traceEvString) (\<lambda>b1.
     bindE (varint b1 i) (\<lambda>b2.
       let slen0 = int (length s);
           room = int (length (arr b2)) - int (pos b2);
           slen = (if room < slen0 + int traceBytesPerNumber then room else slen0)
       in
       bindE (varint b2 (of_int slen)) (\<lambda>b3.
         if slen < 0 \<or> int (length s) < slen then Inl SliceBoundsOutOfRange
         else copy_in b3 (take (nat slen) s))))"

definition traceString ::
  "goarch \<Rightarrow> trace \<Rightarrow> traceBufPtr \<Rightarrow> int32 \<Rightarrow> gostring \<Rightarrow> env
     \<Rightarrow> fatal + (trace \<times> uint64 \<times> traceBufPtr)" where
  "traceString a tr bufp pid s e =
     (if s = [] then Inr (tr, 0, bufp)
      else case strings tr s of
        Some i \<Rightarrow> Inr (tr, i, bufp)
      | None \<Rightarrow>
        let tr0 = tr\<lparr>stringSeq := stringSeq tr + 1\<rparr>;
            i = stringSeq tr0;
            tr1 = tr0\<lparr>strings := (strings tr0)(s \<mapsto> i)\<rparr>;
            size = 1 + 2 * int traceBytesPerNumber + int (length s)
        in
        bindE (traceEventLocked_room a tr1 size pid bufp e) (\<lambda>(tr2, bp).
        bindE (ptr tr2 bp) (\<lambda>b.
        bindE (traceString_write b i s) (\<lambda>b4.
          Inr (tr2\<lparr>mem := (mem tr2)(bp \<mapsto> b4)\<rparr>, i, bp)))))"

subsection \<open>The owners of buffers and the emit operation\<close>

text \<open>
  The three places that hold the buffer an emitter writes to: \<^verbatim>\<open>p.tracebuf\<close> of a
  \<^verbatim>\<open>p\<close>, the global \<^verbatim>\<open>trace.buf\<close>, and \<^verbatim>\<open>trace.cpuLogBuf\<close>.
\<close>

datatype bufsite = PBuf nat | GlobBuf | CpuLogBuf

definition get_site :: "trace \<Rightarrow> bufsite \<Rightarrow> traceBufPtr" where
  "get_site tr s =
     (case s of PBuf i \<Rightarrow> tracebuf tr i | GlobBuf \<Rightarrow> buf' tr | CpuLogBuf \<Rightarrow> cpuLogBuf tr)"

definition set_site :: "trace \<Rightarrow> bufsite \<Rightarrow> traceBufPtr \<Rightarrow> trace" where
  "set_site tr s v =
     (case s of
        PBuf i \<Rightarrow> tr\<lparr>tracebuf := (tracebuf tr)(i := v)\<rparr>
      | GlobBuf \<Rightarrow> tr\<lparr>buf' := v\<rparr>
      | CpuLogBuf \<Rightarrow> tr\<lparr>cpuLogBuf := v\<rparr>)"

text \<open>
  The fields of the current \<^verbatim>\<open>m\<close> and \<^verbatim>\<open>g\<close> that the hooks use: the \<^verbatim>\<open>p\<close> bound to the
  \<^verbatim>\<open>m\<close> (its index, and its \<^verbatim>\<open>id\<close>), \<^verbatim>\<open>startingtrace\<close>, and whether \<^verbatim>\<open>getg() == mp.curg\<close>.
\<close>

record m =
  m_p :: "nat option"
  p_id :: int32
  startingtrace :: bool
  on_curg :: bool

record g =
  goid :: int64
  traceseq :: uint64
  tracelastp :: "nat option"

text \<open>
  \<^verbatim>\<open>
  func traceAcquireBuffer() (mp *m, pid int32, bufp *traceBufPtr) {
      mp = acquirem()
      if p := mp.p.ptr(); p != nil {
          return mp, p.id, &p.tracebuf
      }
      lock(&trace.bufLock)
      return mp, traceGlobProc, &trace.buf
  }
  \<close>
\<close>

definition traceAcquireBuffer :: "m \<Rightarrow> int32 \<times> bufsite" where
  "traceAcquireBuffer cur =
     (case m_p cur of Some i \<Rightarrow> (p_id cur, PBuf i) | None \<Rightarrow> (traceGlobProc, GlobBuf))"

text \<open>
  \<^verbatim>\<open>
  func traceEvent(ev byte, skip int, args ...uint64) {
      mp, pid, bufp := traceAcquireBuffer()
      ...
      if !trace.enabled && !mp.startingtrace {
          traceReleaseBuffer(pid)
          return
      }

      if skip > 0 {
          if getg() == mp.curg {
              skip++ // +1 because stack is captured in traceEventLocked.
          }
      }
      traceEventLocked(0, mp, pid, bufp, ev, 0, skip, args...)
      traceReleaseBuffer(pid)
  }
  \<close>
\<close>

definition traceEvent ::
  "goarch \<Rightarrow> (uintptr list \<Rightarrow> uintptr) \<Rightarrow> trace \<Rightarrow> m \<Rightarrow> byte \<Rightarrow> int \<Rightarrow> uint64 list \<Rightarrow> env
     \<Rightarrow> fatal + trace" where
  "traceEvent a memhash tr cur ev skip args e =
     (case traceAcquireBuffer cur of (pid, site) \<Rightarrow>
        if \<not> enabled tr \<and> \<not> startingtrace cur then Inr tr
        else
          let skip1 = (if 0 < skip \<and> on_curg cur then skip + 1 else skip) in
          bindE (traceEventLocked a memhash tr 0 pid (get_site tr site) ev 0 skip1 args e)
            (\<lambda>(tr1, bp). Inr (set_site tr1 site bp)))"

text \<open>
  \<^verbatim>\<open>
  func traceGoSysExit(ts int64) {
      if ts != 0 && ts < trace.ticksStart {
          // ... assume that the trace was started after the actual syscall
          // exit (but before we actually managed to start the goroutine,
          // aka right now), and assign a fresh time stamp to keep the log consistent.
          ts = 0
      }
      gp := getg().m.curg
      gp.traceseq++
      gp.tracelastp = gp.m.p
      traceEvent(traceEvGoSysExit, -1, uint64(gp.goid), gp.traceseq, uint64(ts)/traceTickDiv)
  }
  \<close>
  \<open>traceGoSysExit_args\<close> is the argument list of the call of \<^verbatim>\<open>traceEvent\<close>.
\<close>

definition traceGoSysExit_ts :: "trace \<Rightarrow> int64 \<Rightarrow> int64" where
  "traceGoSysExit_ts tr ts = (if ts \<noteq> 0 \<and> ts <s ticksStart tr then 0 else ts)"

definition traceGoSysExit_args :: "goarch \<Rightarrow> trace \<Rightarrow> g \<Rightarrow> int64 \<Rightarrow> uint64 list" where
  "traceGoSysExit_args a tr gp ts =
     [goid gp, traceseq gp + 1, traceGoSysExit_ts tr ts div traceTickDiv a]"

definition traceGoSysExit ::
  "goarch \<Rightarrow> (uintptr list \<Rightarrow> uintptr) \<Rightarrow> trace \<Rightarrow> m \<Rightarrow> g \<Rightarrow> int64 \<Rightarrow> env
     \<Rightarrow> g \<times> (fatal + trace)" where
  "traceGoSysExit a memhash tr cur gp ts e =
     (let gp1 = gp\<lparr>traceseq := traceseq gp + 1\<rparr>;
          gp2 = gp1\<lparr>tracelastp := m_p cur\<rparr>
      in (gp2, traceEvent a memhash tr cur traceEvGoSysExit (- 1)
                 (traceGoSysExit_args a tr gp ts) e))"

subsection \<open>The clock capture of StopTrace\<close>

text \<open>
  \<^verbatim>\<open>
  for {
      trace.ticksEnd = cputicks()
      trace.timeEnd = nanotime()
      // Windows time can tick only every 15ms, wait for at least one tick.
      if trace.timeEnd != trace.timeStart {
          break
      }
      osyield()
  }
  \<close>
  \<open>clock i\<close> is what \<^verbatim>\<open>cputicks()\<close> and \<^verbatim>\<open>nanotime()\<close> return in round \<open>i\<close> of the
  loop. The loop need not end: it is a partial function, \<open>None\<close> when it spins for
  ever. The result is the two values stored and the round that stored them.
\<close>

partial_function (option) StopTrace_clock ::
  "(nat \<Rightarrow> int64 \<times> int64) \<Rightarrow> int64 \<Rightarrow> nat \<Rightarrow> (int64 \<times> int64 \<times> nat) option" where
  "StopTrace_clock clock tstart i =
     (if snd (clock i) \<noteq> tstart then Some (fst (clock i), snd (clock i), i)
      else StopTrace_clock clock tstart (Suc i))"

definition StopTrace_loop :: "trace \<Rightarrow> (nat \<Rightarrow> int64 \<times> int64) \<Rightarrow> trace option" where
  "StopTrace_loop tr clock =
     (case StopTrace_clock clock (timeStart tr) 0 of
        None \<Rightarrow> None
      | Some (c, n, i) \<Rightarrow> Some (tr\<lparr>ticksEnd := c, timeEnd := n\<rparr>))"

text \<open>A clock given by its first readings, the last of which it keeps returning.\<close>

definition clock_of :: "(int64 \<times> int64) list \<Rightarrow> nat \<Rightarrow> int64 \<times> int64" where
  "clock_of rs i = (if i < length rs then rs ! i else last rs)"

subsection \<open>The reader\<close>

text \<open>
  \<^verbatim>\<open>ReadTrace\<close>, statement for statement. The call returns bytes or nil, or parks in
  \<^verbatim>\<open>goparkunlock\<close> (\<open>Parked\<close>); after the wake-up it goes on with \<open>ReadTrace_rest\<close>, the
  part from \<^verbatim>\<open>// Write a buffer.\<close> on. The third component of a result is what the call
  printed. Outside this file and taken as parameters: \<open>readCPU\<close>, the effect of
  \<^verbatim>\<open>traceReadCPU()\<close> for the content of the profile buffer; \<open>freq\<close>, the value
  \<^verbatim>\<open>uint64(freq)\<close> of the \<^verbatim>\<open>float64\<close> expression of the footer, \<open>None\<close> when
  \<^verbatim>\<open>freq <= 0\<close>; \<open>dump\<close>, the effect of \<^verbatim>\<open>trace.stackTab.dump()\<close> with the symbolizer.
\<close>

datatype read_result = Returned "byte list option" | Parked

definition trace_header :: "byte list" where
  "trace_header =
     [0x67, 0x6F, 0x20, 0x31, 0x2E, 0x31, 0x39, 0x20, 0x74, 0x72, 0x61, 0x63, 0x65, 0, 0, 0]"

definition ReadTrace_rest ::
  "trace \<Rightarrow> uint64 option \<Rightarrow> (trace \<Rightarrow> fatal + trace)
     \<Rightarrow> fatal + (trace \<times> read_result \<times> string list)" where
  "ReadTrace_rest tr freq dump =
     (if fullHead tr \<noteq> 0 then
        bindE (traceFullDequeue tr) (\<lambda>(tr1, b).
          let tr2 = tr1\<lparr>reading := b\<rparr>;
              tr3 = tr2\<lparr>lockOwner := 0\<rparr>
          in bindE (ptr tr3 b) (\<lambda>bb.
               if length (arr bb) < pos bb then Inl SliceBoundsOutOfRange
               else Inr (tr3, Returned (Some (take (pos bb) (arr bb))), [])))
      else if \<not> footerWritten tr then
        let tr1 = tr\<lparr>footerWritten := True\<rparr> in
        (case freq of
           None \<Rightarrow> Inl (Throw ''trace: ReadTrace got invalid frequency'')
         | Some f \<Rightarrow>
             let tr2 = tr1\<lparr>lockOwner := 0\<rparr>;
                 data = traceAppend [traceEvFrequency OR push_bit traceArgCountShift 0] f
             in bindE (dump tr2) (\<lambda>tr3. Inr (tr3, Returned (Some data), [])))
      else if shutdown tr then Inr (tr\<lparr>lockOwner := 0\<rparr>, Returned None, [])
      else Inr (tr\<lparr>lockOwner := 0\<rparr>, Returned None,
                [''runtime: spurious wakeup of trace reader'']))"

definition ReadTrace_recycle :: "trace \<Rightarrow> fatal + trace" where
  "ReadTrace_recycle tr =
     (if reading tr \<noteq> 0 then
        bindE (ptr tr (reading tr)) (\<lambda>rb.
          Inr (tr\<lparr>mem := (mem tr)(reading tr \<mapsto> rb\<lparr>link := empty' tr\<rparr>),
                  empty' := reading tr, reading := 0\<rparr>))
      else Inr tr)"

definition ReadTrace ::
  "trace \<Rightarrow> guintptr \<Rightarrow> (trace \<Rightarrow> fatal + trace) \<Rightarrow> uint64 option \<Rightarrow> (trace \<Rightarrow> fatal + trace)
     \<Rightarrow> fatal + (trace \<times> read_result \<times> string list)" where
  "ReadTrace tr gp readCPU freq dump =
     (let tr0 = tr\<lparr>lockOwner := gp\<rparr> in
      if reader tr0 \<noteq> 0 then
        Inr (tr0\<lparr>lockOwner := 0\<rparr>, Returned None,
             [''runtime: ReadTrace called from multiple goroutines simultaneously''])
      else
        bindE (ReadTrace_recycle tr0) (\<lambda>tr1.
          if \<not> headerWritten tr1 then
            Inr (tr1\<lparr>headerWritten := True, lockOwner := 0\<rparr>,
                 Returned (Some trace_header), [])
          else
            bindE (if \<not> footerWritten tr1 \<and> \<not> shutdown tr1 then readCPU tr1 else Inr tr1)
              (\<lambda>tr2.
                if fullHead tr2 = 0 \<and> \<not> shutdown tr2 then Inr (tr2\<lparr>reader := gp\<rparr>, Parked, [])
                else ReadTrace_rest tr2 freq dump)))"

subsection \<open>The life of the buffers\<close>

text \<open>
  The states the buffer operations of the file can reach from the initial state, in
  any order, for any arguments and for any buffer pointer, whether an owner holds it
  (\<^verbatim>\<open>p.tracebuf\<close>, \<^verbatim>\<open>trace.buf\<close>, \<^verbatim>\<open>trace.cpuLogBuf\<close>) or a local variable does (\<^verbatim>\<open>bufp\<close>
  in \<^verbatim>\<open>dump\<close>): storing a pointer in an owner, a flush, an event, a string, a raw
  write behind an event (\<^verbatim>\<open>trace_userLog\<close> and \<^verbatim>\<open>dump\<close> append with \<^verbatim>\<open>byte\<close>,
  \<^verbatim>\<open>varint\<close> and \<^verbatim>\<open>copy\<close>), handing a buffer to the full queue (\<^verbatim>\<open>traceFlush\<close>,
  \<^verbatim>\<open>traceProcFree\<close>, \<^verbatim>\<open>StopTrace\<close>, \<^verbatim>\<open>dump\<close>), and the reader taking the head of the
  full queue and returning the buffer it read to the empty list.
\<close>

inductive bufs_run :: "goarch \<Rightarrow> (uintptr list \<Rightarrow> uintptr) \<Rightarrow> trace \<Rightarrow> bool"
  for a :: goarch and memhash :: "uintptr list \<Rightarrow> uintptr" where
  start: "bufs_run a memhash trace0"
| owner: "bufs_run a memhash tr \<Longrightarrow> bufs_run a memhash (set_site tr s p)"
| flush:
    "bufs_run a memhash tr \<Longrightarrow> traceFlush a tr p pid e = Inr (tr1, bp)
       \<Longrightarrow> bufs_run a memhash tr1"
| event:
    "bufs_run a memhash tr
       \<Longrightarrow> traceEventLocked a memhash tr extraBytes pid p ev stackID skip args e = Inr (tr1, bp)
       \<Longrightarrow> bufs_run a memhash tr1"
| string:
    "bufs_run a memhash tr \<Longrightarrow> traceString a tr p pid str e = Inr (tr1, i, bp)
       \<Longrightarrow> bufs_run a memhash tr1"
| append_byte:
    "bufs_run a memhash tr \<Longrightarrow> ptr tr p = Inr b \<Longrightarrow> byte' b x = Inr b1
       \<Longrightarrow> bufs_run a memhash (tr\<lparr>mem := (mem tr)(p \<mapsto> b1)\<rparr>)"
| append_varint:
    "bufs_run a memhash tr \<Longrightarrow> ptr tr p = Inr b \<Longrightarrow> varint b v = Inr b1
       \<Longrightarrow> bufs_run a memhash (tr\<lparr>mem := (mem tr)(p \<mapsto> b1)\<rparr>)"
| append_copy:
    "bufs_run a memhash tr \<Longrightarrow> ptr tr p = Inr b \<Longrightarrow> copy_in b src = Inr b1
       \<Longrightarrow> bufs_run a memhash (tr\<lparr>mem := (mem tr)(p \<mapsto> b1)\<rparr>)"
| queue:
    "bufs_run a memhash tr \<Longrightarrow> traceFullQueue tr p = Inr tr1 \<Longrightarrow> bufs_run a memhash tr1"
| dequeue:
    "bufs_run a memhash tr \<Longrightarrow> traceFullDequeue tr = Inr (tr1, b)
       \<Longrightarrow> bufs_run a memhash (tr1\<lparr>reading := b\<rparr>)"
| recycle:
    "bufs_run a memhash tr \<Longrightarrow> ReadTrace_recycle tr = Inr tr1 \<Longrightarrow> bufs_run a memhash tr1"

text \<open>
  The buffers of the full queue: the head and what the links lead to from it.
\<close>

inductive in_full :: "trace \<Rightarrow> traceBufPtr \<Rightarrow> bool" for tr :: trace where
  at_head: "fullHead tr = p \<Longrightarrow> mem tr p = Some b \<Longrightarrow> in_full tr p"
| linked: "in_full tr p \<Longrightarrow> mem tr p = Some b \<Longrightarrow> mem tr (link b) = Some c \<Longrightarrow> in_full tr (link b)"

text \<open>
  The Batch event of the specification: a header byte of event type 1 with argument
  count 1 in its two high bits, then the processor id and the tick as two base-128
  numbers.
\<close>

definition Batch_event :: "int32 \<Rightarrow> uint64 \<Rightarrow> byte list" where
  "Batch_event pid tick = 0x41 # traceAppend [] (scast pid) @ traceAppend [] tick"

definition begins_with_Batch :: "traceBuf \<Rightarrow> bool" where
  "begins_with_Batch b \<longleftrightarrow>
     0 < pos b \<and> pos b \<le> length (arr b)
     \<and> (\<exists>pid tick. prefix (Batch_event pid tick) (take (pos b) (arr b)))"

subsection \<open>Vocabulary of the proofs\<close>

text \<open>
  \<open>put_bytes b bs\<close> is the buffer \<open>b\<close> with the bytes \<open>bs\<close> stored from \<open>pos\<close> on and
  \<open>pos\<close> moved behind them: what \<^verbatim>\<open>byte\<close>, \<^verbatim>\<open>varint\<close> and \<^verbatim>\<open>copy\<close> do when the array
  has room.
\<close>

definition put_bytes :: "traceBuf \<Rightarrow> byte list \<Rightarrow> traceBuf" where
  "put_bytes b bs =
     b\<lparr>arr := take (pos b) (arr b) @ bs @ drop (pos b + length bs) (arr b),
       pos := pos b + length bs\<rparr>"

text \<open>
  The tick an event gets, the tick difference it writes, as
  \<^verbatim>\<open>traceEventLocked\<close> computes them, and the bytes of an event without the stack
  argument.
\<close>

definition event_ticks :: "goarch \<Rightarrow> traceBuf \<Rightarrow> int64 \<Rightarrow> uint64" where
  "event_ticks a b now =
     (if now div traceTickDiv a - lastTicks b = 0 then lastTicks b + 1
      else now div traceTickDiv a)"

definition event_tickDiff :: "goarch \<Rightarrow> traceBuf \<Rightarrow> int64 \<Rightarrow> uint64" where
  "event_tickDiff a b now =
     (if now div traceTickDiv a - lastTicks b = 0 then 1
      else now div traceTickDiv a - lastTicks b)"

definition event_bytes :: "byte \<Rightarrow> byte \<Rightarrow> uint64 \<Rightarrow> uint64 list \<Rightarrow> byte list" where
  "event_bytes ev narg tickDiff args =
     (ev OR push_bit traceArgCountShift narg) # (if narg = 3 then [0] else [])
       @ traceAppend [] tickDiff @ concat (map (traceAppend []) args)"

text \<open>
  The tick a flush gives the new batch and the buffer a flush hands out for the old
  content \<open>old\<close> of the memory it reuses.
\<close>

definition flush_ticks :: "goarch \<Rightarrow> traceBuf \<Rightarrow> int64 \<Rightarrow> uint64" where
  "flush_ticks a old now =
     (if now div traceTickDiv a = lastTicks old then lastTicks old + 1 else now div traceTickDiv a)"

definition fresh_batch :: "goarch \<Rightarrow> traceBuf \<Rightarrow> int32 \<Rightarrow> int64 \<Rightarrow> traceBuf" where
  "fresh_batch a old pid now =
     put_bytes (old\<lparr>link := 0, pos := 0, lastTicks := flush_ticks a old now\<rparr>)
       (Batch_event pid (flush_ticks a old now))"

text \<open>Two buffers that differ at most in \<^verbatim>\<open>link\<close>; a state whose buffers all come from another's.\<close>

definition same_bytes :: "traceBuf \<Rightarrow> traceBuf \<Rightarrow> bool" where
  "same_bytes b b' \<longleftrightarrow> pos b' = pos b \<and> arr b' = arr b \<and> lastTicks b' = lastTicks b"

definition mem_kept :: "trace \<Rightarrow> trace \<Rightarrow> bool" where
  "mem_kept tr tr1 \<longleftrightarrow>
     (\<forall>p b'. mem tr1 p = Some b' \<longrightarrow> (\<exists>b0. mem tr p = Some b0 \<and> same_bytes b0 b'))"

text \<open>\<open>wrote b bs b'\<close>: the buffer \<open>b\<close> had room for \<open>bs\<close> at \<open>pos\<close> and \<open>b'\<close> is \<open>b\<close> with them.\<close>

definition wrote :: "traceBuf \<Rightarrow> byte list \<Rightarrow> traceBuf \<Rightarrow> bool" where
  "wrote b bs b' \<longleftrightarrow> pos b + length bs \<le> length (arr b) \<and> b' = put_bytes b bs"

text \<open>The bytes of the stack argument of an event when no stack is unwound.\<close>

definition stack_bytes :: "uint32 \<Rightarrow> int \<Rightarrow> byte list" where
  "stack_bytes stackID skip =
     (if stackID \<noteq> 0 then traceAppend [] (ucast stackID) else if skip = 0 then [0] else [])"

subsection \<open>Example inputs\<close>

text \<open>
  An environment in which \<^verbatim>\<open>sysAlloc\<close> returns the address 1, \<^verbatim>\<open>cputicks()\<close> returns
  \<open>flushNow\<close> in \<^verbatim>\<open>traceFlush\<close> and \<open>now\<close> in \<^verbatim>\<open>traceEventLocked\<close>, and nothing is unwound.
\<close>

definition example_env :: "int64 \<Rightarrow> int64 \<Rightarrow> env" where
  "example_env flushNow now =
     \<lparr>flush_cputicks = flushNow, sysAlloc = 1, cputicks = now,
      mp = \<lparr>unwound = [], curg_goid = 0\<rparr>\<rparr>"

subsection \<open>The frequency of the footer\<close>

text \<open>
  \<^verbatim>\<open>
  // Use float64 because (trace.ticksEnd - trace.ticksStart) * 1e9 can overflow int64.
  freq := float64(trace.ticksEnd-trace.ticksStart) * 1e9 / float64(trace.timeEnd-trace.timeStart) / traceTickDiv
  if freq <= 0 {
      throw("trace: ReadTrace got invalid frequency")
  }
  ...
  data = traceAppend(data, uint64(freq))
  \<close>
  A \<^verbatim>\<open>float64\<close> is a rational number, an infinity or a NaN (the sign of zero plays no
  part in this expression: the divisor \<^verbatim>\<open>float64(n)\<close> of an integer is never \<open>-0\<close>, and
  \<open>-0 <= 0\<close> holds as \<open>0 <= 0\<close> does). Every operation rounds its exact result to the
  nearest number with a significand of 53 bits, a tie to the one with an even
  significand; below \<open>2\<^sup>-\<^sup>1\<^sup>0\<^sup>2\<^sup>2\<close> the spacing stays \<open>2\<^sup>-\<^sup>1\<^sup>0\<^sup>7\<^sup>4\<close>, and a rounded result of
  \<open>2\<^sup>1\<^sup>0\<^sup>2\<^sup>4\<close> or more is an infinity. \<open>binade x\<close> is the exponent \<open>e\<close> with
  \<open>2\<^sup>e \<le> |x| < 2\<^sup>e\<^sup>+\<^sup>1\<close>.
\<close>

datatype float64 = Finite rat | PosInf | NegInf | NaN

definition pow2 :: "int \<Rightarrow> rat" where
  "pow2 e = (if 0 \<le> e then 2 ^ nat e else 1 / 2 ^ nat (- e))"

definition round_half_even :: "rat \<Rightarrow> int" where
  "round_half_even x =
     (let f = \<lfloor>x\<rfloor>; r = x - of_int f
      in if r < 1 / 2 then f else if 1 / 2 < r then f + 1 else if even f then f else f + 1)"

definition binade :: "rat \<Rightarrow> int" where
  "binade x =
     (let k = bitlen \<bar>fst (quotient_of x)\<bar> - bitlen (snd (quotient_of x))
      in if pow2 k \<le> \<bar>x\<bar> then k else k - 1)"

definition float64_round :: "rat \<Rightarrow> float64" where
  "float64_round x =
     (if x = 0 then Finite 0
      else let e = max (binade x - 52) (- 1074);
               y = of_int (round_half_even (x / pow2 e)) * pow2 e
           in if pow2 1024 \<le> y then PosInf else if y \<le> - pow2 1024 then NegInf else Finite y)"









text \<open>
  A trace that was stopped \<open>d\<close> ticks and \<open>n\<close> nanoseconds after its start, with the
  header read and the full queue drained.
\<close>

definition stopped_trace :: "int64 \<Rightarrow> int64 \<Rightarrow> trace" where
  "stopped_trace d n =
     trace0\<lparr>headerWritten := True, shutdown := True,
            ticksStart := 0, ticksEnd := d, timeStart := 0, timeEnd := n\<rparr>"

subsection \<open>The ids of the specification\<close>

text \<open>
  The specification's side of the stack table: the non-empty sequences in the order
  in which they were first put (\<open>seen_after S xs\<close> is that list after the puts \<open>xs\<close>,
  from the list \<open>S\<close>), and the id of a sequence, one more than its position in that
  list, 0 for the empty sequence.
\<close>

fun seen_after :: "uintptr list list \<Rightarrow> uintptr list list \<Rightarrow> uintptr list list" where
  "seen_after S [] = S"
| "seen_after S (pcs # rest) =
     seen_after (if pcs = [] \<or> pcs \<in> set S then S else S @ [pcs]) rest"

fun position :: "'a list \<Rightarrow> 'a \<Rightarrow> nat" where
  "position [] x = 0"
| "position (y # ys) x = (if x = y then 0 else Suc (position ys x))"

definition spec_id :: "uintptr list list \<Rightarrow> uintptr list \<Rightarrow> uint32" where
  "spec_id S pcs = (if pcs = [] then 0 else of_nat (Suc (position S pcs)))"

text \<open>
  The record \<^verbatim>\<open>put\<close> makes for the sequence number \<open>k\<close>, and a table that holds
  exactly the records of the sequences \<open>S\<close>, each in the bucket of its hash.
\<close>

definition stack_record :: "(uintptr list \<Rightarrow> uintptr) \<Rightarrow> nat \<Rightarrow> uintptr list \<Rightarrow> traceStack" where
  "stack_record memhash k pcs =
     \<lparr>stk_hash = memhash pcs, stk_id = of_nat (Suc k), stk_n = length pcs, stk_pcs = pcs\<rparr>"

definition holds_stacks ::
  "(uintptr list \<Rightarrow> uintptr) \<Rightarrow> uintptr list list \<Rightarrow> traceStackTable \<Rightarrow> bool" where
  "holds_stacks memhash S t \<longleftrightarrow>
     seq t = of_nat (length S) \<and> distinct S
     \<and> (\<forall>pcs \<in> set S. pcs \<noteq> [] \<and> length pcs \<le> traceStackSize)
     \<and> (\<forall>part. set (tab t part) =
           {stack_record memhash k (S ! k) | k.
              k < length S \<and> unat (memhash (S ! k)) mod tab_len = part})"

text \<open>As many sequences of one program counter as one likes, all different.\<close>

definition one_pc_stacks :: "nat \<Rightarrow> uintptr list list" where
  "one_pc_stacks n = map (\<lambda>i. [of_nat i]) [0..<n]"

section \<open>Proofs\<close>

declare traceAppend.simps [simp del]
declare varint_loop.simps [simp del]

lemma bindE_simps [simp]:
  "bindE (Inl e) f = Inl e"
  "bindE (Inr x) f = f x"
  by (simp_all add: bindE_def)

lemma bindE_Inr_iff: "bindE m f = Inr y \<longleftrightarrow> (\<exists>x. m = Inr x \<and> f x = Inr y)"
  by (cases m) simp_all

subsection \<open>The base-128 writer\<close>



lemma bit_int_x7F: "bit (0x7F :: int) n \<longleftrightarrow> n < 7"
proof -
  have e: "(0x7F :: int) = mask 7" by (simp add: mask_eq_exp_minus_1)
  show ?thesis by (subst e) (simp only: bit_mask_iff, auto)
qed

lemma bit_int_x80: "bit (0x80 :: int) n \<longleftrightarrow> n = 7"
proof -
  have e: "(0x80 :: int) = 2 ^ 7" by simp
  show ?thesis by (subst e) (simp only: bit_exp_iff, auto)
qed

lemma low7: "(0x80 OR x) AND 0x7F = take_bit 7 (x::byte)"
  by (rule bit_word_eqI) (auto simp add: bit_and_iff bit_or_iff bit_take_bit_iff bit_int_x7F bit_int_x80)

lemma low7': "x AND 0x7F = take_bit 7 (x::byte)"
  by (rule bit_word_eqI) (auto simp add: bit_and_iff bit_or_iff bit_take_bit_iff bit_int_x7F bit_int_x80)

lemma bit7_or: "bit (0x80 OR (x :: byte)) 7"
  by (simp add: bit_or_iff bit_int_x80)

lemma ucast_low7: "ucast (take_bit 7 (ucast (v::uint64) :: byte)) = take_bit 7 v"
  by (rule bit_word_eqI) (auto simp add: bit_simps)

lemma recompose7: "take_bit 7 v OR push_bit 7 (drop_bit 7 v) = (v :: uint64)"
proof (rule bit_word_eqI)
  fix n assume "n < LENGTH(64)"
  show "bit (take_bit 7 v OR push_bit 7 (drop_bit 7 v)) n = bit v n"
    by (cases "n < 7") (auto simp add: bit_simps dest: bit_imp_le_length)
qed

lemma word_split7: "ucast ((0x80 OR (ucast (v :: uint64) :: byte)) AND 0x7F) OR push_bit 7 (drop_bit 7 v) = v"
  by (simp only: low7 ucast_low7 recompose7)

lemma small_lt: "\<not> 0x80 \<le> (v :: uint64) \<Longrightarrow> v < 2 ^ 7"
  by (simp add: not_le)

lemma small_bits: "\<not> 0x80 \<le> (v :: uint64) \<Longrightarrow> bit v n \<Longrightarrow> n < 7"
  using small_lt [of v] by (metis bit_take_bit_iff less_mask_eq take_bit_eq_mask)

lemma small_no_bit7: "\<not> 0x80 \<le> (v :: uint64) \<Longrightarrow> \<not> bit (ucast v :: byte) 7"
  using small_bits [of v 7] by (auto simp add: bit_simps)

lemma small_ucast: "\<not> 0x80 \<le> (v :: uint64) \<Longrightarrow> ucast (ucast v :: byte) = v"
  by (rule bit_word_eqI) (auto simp add: bit_simps dest: small_bits)


lemma traceAppend_prefix: "traceAppend (a @ b) v = a @ traceAppend b v"
proof (induction b v rule: traceAppend.induct)
  case (1 b v)
  show ?case
  proof (cases "0x80 \<le> v")
    case True
    then show ?thesis
      using "1.IH" by (subst traceAppend.simps, subst (2) traceAppend.simps) simp
  next
    case False
    then show ?thesis by (simp add: traceAppend.simps)
  qed
qed

lemma traceAppend_append: "traceAppend buf v = buf @ traceAppend [] v"
  using traceAppend_prefix [of buf "[]" v] by simp

lemma traceAppend_Nil_rec:
  "traceAppend [] v =
     (if 0x80 \<le> v then (0x80 OR ucast v) # traceAppend [] (drop_bit 7 v) else [ucast v])"
  by (subst traceAppend.simps, subst traceAppend_append) simp

lemma traceAppend_length_bound:
  "unat v < 2 ^ (7 * Suc n) \<Longrightarrow> length (traceAppend [] v) \<le> Suc n"
proof (induction n arbitrary: v)
  case 0
  then have "\<not> 0x80 \<le> v" by (simp add: word_le_nat_alt)
  then show ?case by (subst traceAppend_Nil_rec) simp
next
  case (Suc n)
  show ?case
  proof (cases "0x80 \<le> v")
    case True
    have "unat (drop_bit 7 v) = unat v div 2 ^ 7"
      by (simp add: drop_bit_eq_div unat_div)
    also have "\<dots> < 2 ^ (7 * Suc n)"
      using Suc.prems by (simp add: less_mult_imp_div_less power_add mult.commute)
    finally have "length (traceAppend [] (drop_bit 7 v)) \<le> Suc n"
      by (rule Suc.IH)
    then show ?thesis using True by (subst traceAppend_Nil_rec) simp
  next
    case False
    then show ?thesis by (subst traceAppend_Nil_rec) simp
  qed
qed

lemma traceAppend_length_le: "length (traceAppend [] v) \<le> traceBytesPerNumber"
proof -
  have "unat v < 2 ^ 64" using unsigned_less [of v, where ?'a = nat] by simp
  also have "(2::nat) ^ 64 \<le> 2 ^ (7 * Suc 9)" by simp
  finally show ?thesis
    using traceAppend_length_bound [of v 9] by (simp add: traceBytesPerNumber_def)
qed

lemma traceAppend_nonempty: "traceAppend [] v \<noteq> []"
  by (subst traceAppend_Nil_rec) simp

lemma drop7_less: "0x80 \<le> (v::uint64) \<Longrightarrow> unat (drop_bit 7 v) < unat v"
proof -
  assume "0x80 \<le> v"
  then have "128 \<le> unat v" by (simp add: word_le_nat_alt)
  then have "unat v div 128 < unat v" by simp
  then show ?thesis by (simp add: drop_bit_eq_div unat_div)
qed

lemma leb128_decode_traceAppend:
  "leb128_decode (traceAppend [] v @ rest) = Some (v, rest)"
proof (induction "unat v" arbitrary: v rule: less_induct)
  case less
  show ?case
  proof (cases "0x80 \<le> v")
    case True
    have "leb128_decode (traceAppend [] (drop_bit 7 v) @ rest) = Some (drop_bit 7 v, rest)"
      using less [OF drop7_less [OF True]] .
    then show ?thesis
      using True by (subst traceAppend_Nil_rec) (simp add: bit7_or word_split7)
  next
    case False
    then show ?thesis
      by (subst traceAppend_Nil_rec) (simp add: small_no_bit7 small_ucast)
  qed
qed

lemma traceAppend_continuation:
  "i < length (traceAppend [] v) \<Longrightarrow>
     bit (traceAppend [] v ! i) 7 \<longleftrightarrow> Suc i < length (traceAppend [] v)"
proof (induction "unat v" arbitrary: v i rule: less_induct)
  case less
  show ?case
  proof (cases "0x80 \<le> v")
    case True
    note IH = less(1) [OF drop7_less [OF True]]
    show ?thesis
    proof (cases i)
      case 0
      then show ?thesis
        using True traceAppend_nonempty [of "drop_bit 7 v"]
        by (subst (1 2) traceAppend_Nil_rec) (simp add: bit7_or)
    next
      case (Suc j)
      then have "j < length (traceAppend [] (drop_bit 7 v))"
        using less(2) True by (subst (asm) traceAppend_Nil_rec) simp
      from IH [OF this] show ?thesis
        using True Suc by (subst (1 2) traceAppend_Nil_rec) simp
    qed
  next
    case False
    then show ?thesis
      using less(2) by (subst (1 2) traceAppend_Nil_rec, subst (asm) traceAppend_Nil_rec)
        (simp add: small_no_bit7)
  qed
qed

lemma traceAppend_digit:
  "i < length (traceAppend [] v) \<Longrightarrow>
     take_bit 7 (traceAppend [] v ! i) = ucast (take_bit 7 (drop_bit (7 * i) v))"
proof (induction "unat v" arbitrary: v i rule: less_induct)
  case less
  show ?case
  proof (cases "0x80 \<le> v")
    case True
    note IH = less(1) [OF drop7_less [OF True]]
    show ?thesis
    proof (cases i)
      case 0
      have "take_bit 7 (0x80 OR (ucast v :: byte)) = ucast (take_bit 7 v)"
        by (rule bit_word_eqI) (auto simp add: bit_simps bit_int_x80)
      then show ?thesis
        using True 0 by (subst traceAppend_Nil_rec) simp
    next
      case (Suc j)
      then have "j < length (traceAppend [] (drop_bit 7 v))"
        using less(2) True by (subst (asm) traceAppend_Nil_rec) simp
      from IH [OF this] show ?thesis
        using True Suc by (subst traceAppend_Nil_rec) (simp add: drop_bit_drop_bit add.commute)
    qed
  next
    case False
    have "take_bit 7 (ucast v :: byte) = ucast (take_bit 7 v)"
      by (rule bit_word_eqI) (auto simp add: bit_simps)
    then show ?thesis
      using False less(2) by (subst traceAppend_Nil_rec, subst (asm) traceAppend_Nil_rec) simp
  qed
qed

lemma varint_loop_eq:
  "varint_loop a p v =
     (if p + length (traceAppend [] v) \<le> length a
      then Inr (take p a @ traceAppend [] v @ drop (p + length (traceAppend [] v)) a,
                p + length (traceAppend [] v))
      else Inl IndexOutOfRange)"
proof (induction a p v rule: varint_loop.induct)
  case (1 a p v)
  show ?case
  proof (cases "0x80 \<le> v")
    case True
    show ?thesis
    proof (cases "p < length a")
      case pl: True
      have upd: "take (Suc p) (a[p := x]) = take p a @ [x]" for x
        using pl by (simp add: take_Suc_conv_app_nth)
      show ?thesis
        using True pl "1.IH" [OF True pl]
        apply (subst varint_loop.simps)
        apply (subst (1 2 3 4) traceAppend_Nil_rec)
        apply (simp add: upd)
        done
    next
      case False
      then show ?thesis
        using True traceAppend_nonempty [of "drop_bit 7 v"]
        by (subst varint_loop.simps, subst traceAppend_Nil_rec) simp
    qed
  next
    case False
    then show ?thesis
      apply (subst varint_loop.simps)
      apply (subst (1 2 3 4) traceAppend_Nil_rec)
      apply (auto simp add: upd_conv_take_nth_drop)
      done
  qed
qed

lemma varint_eq:
  "varint b v =
     (if pos b + length (traceAppend [] v) \<le> length (arr b)
      then Inr (b\<lparr>arr := take (pos b) (arr b) @ traceAppend [] v
                         @ drop (pos b + length (traceAppend [] v)) (arr b),
               pos := pos b + length (traceAppend [] v)\<rparr>)
      else Inl IndexOutOfRange)"
  by (simp add: varint_def varint_loop_eq)

text \<open>
  Claim C6. For every \<open>v\<close>, \<open>traceAppend\<close> appends to \<open>buf\<close> a sequence \<open>bs\<close> of at
  least one and at most \<open>traceBytesPerNumber = 10\<close> bytes; byte \<open>i\<close> of it carries the
  seven bits of \<open>v\<close> from bit \<open>7 * i\<close> on (little-endian base 128) and has its high bit
  set exactly when another byte follows; decoding \<open>bs\<close>, whatever comes after it, gives
  \<open>v\<close> back and leaves what comes after. \<open>traceBuf.varint\<close> writes the same bytes at
  \<open>pos\<close> and advances \<open>pos\<close> by their number when the array has room for them, and
  panics with an index out of range when it has not.
\<close>

theorem traceAppend_varint_leb128:
  "\<exists>bs. traceAppend buf v = buf @ bs
      \<and> 1 \<le> length bs \<and> length bs \<le> traceBytesPerNumber
      \<and> (\<forall>i < length bs. take_bit 7 (bs ! i) = ucast (take_bit 7 (drop_bit (7 * i) v)))
      \<and> (\<forall>i < length bs. bit (bs ! i) 7 \<longleftrightarrow> Suc i < length bs)
      \<and> leb128_decode (bs @ rest) = Some (v, rest)
      \<and> varint b v =
          (if pos b + length bs \<le> length (arr b)
           then Inr (b\<lparr>arr := take (pos b) (arr b) @ bs @ drop (pos b + length bs) (arr b),
                      pos := pos b + length bs\<rparr>)
           else Inl IndexOutOfRange)"
proof (intro exI conjI allI impI)
  show "traceAppend buf v = buf @ traceAppend [] v"
    by (rule traceAppend_append)
  show "1 \<le> length (traceAppend [] v)"
    using traceAppend_nonempty [of v] by (cases "traceAppend [] v") simp_all
  show "length (traceAppend [] v) \<le> traceBytesPerNumber"
    by (rule traceAppend_length_le)
  show "take_bit 7 (traceAppend [] v ! i) = ucast (take_bit 7 (drop_bit (7 * i) v))"
    if "i < length (traceAppend [] v)" for i
    using that by (rule traceAppend_digit)
  show "bit (traceAppend [] v ! i) 7 \<longleftrightarrow> Suc i < length (traceAppend [] v)"
    if "i < length (traceAppend [] v)" for i
    using that by (rule traceAppend_continuation)
  show "leb128_decode (traceAppend [] v @ rest) = Some (v, rest)"
    by (rule leb128_decode_traceAppend)
  show "varint b v =
          (if pos b + length (traceAppend [] v) \<le> length (arr b)
           then Inr (b\<lparr>arr := take (pos b) (arr b) @ traceAppend [] v
                              @ drop (pos b + length (traceAppend [] v)) (arr b),
                      pos := pos b + length (traceAppend [] v)\<rparr>)
           else Inl IndexOutOfRange)"
    by (rule varint_eq)
qed

lemma traceAppend_300: "traceAppend [0x41] 300 = [0x41, 0xAC, 0x02]"
  by (simp add: traceAppend.simps)

theorem traceAppend_varint_leb128_witness:
  "traceAppend [0x41] 300 = [0x41, 0xAC, 0x02]
   \<and> leb128_decode [0xAC, 0x02, 0x07] = Some (300, [0x07])
   \<and> varint \<lparr>link = 0, lastTicks = 0, pos = 1, arr = [0x41, 0, 0, 0]\<rparr> 300
       = Inr \<lparr>link = 0, lastTicks = 0, pos = 3, arr = [0x41, 0xAC, 0x02, 0]\<rparr>
   \<and> varint \<lparr>link = 0, lastTicks = 0, pos = 3, arr = [0x41, 0, 0, 0]\<rparr> 300
       = Inl IndexOutOfRange"
proof -
  obtain bs where bs: "traceAppend [0x41] 300 = [0x41] @ bs"
    and dec: "leb128_decode (bs @ [0x07]) = Some (300, [0x07])"
    and wr: "varint \<lparr>link = 0, lastTicks = 0, pos = 1, arr = [0x41, 0, 0, 0]\<rparr> 300 =
          (if pos \<lparr>link = 0, lastTicks = 0, pos = 1, arr = [0x41, 0, 0, 0 :: byte]\<rparr> + length bs
                \<le> length (arr \<lparr>link = 0, lastTicks = 0, pos = 1, arr = [0x41, 0, 0, 0 :: byte]\<rparr>)
           then Inr (\<lparr>link = 0, lastTicks = 0, pos = 1, arr = [0x41, 0, 0, 0]\<rparr>
                 \<lparr>arr := take (pos \<lparr>link = 0, lastTicks = 0, pos = 1, arr = [0x41, 0, 0, 0 :: byte]\<rparr>)
                              (arr \<lparr>link = 0, lastTicks = 0, pos = 1, arr = [0x41, 0, 0, 0]\<rparr>) @ bs
                         @ drop (pos \<lparr>link = 0, lastTicks = 0, pos = 1, arr = [0x41, 0, 0, 0 :: byte]\<rparr>
                                  + length bs)
                              (arr \<lparr>link = 0, lastTicks = 0, pos = 1, arr = [0x41, 0, 0, 0]\<rparr>),
                   pos := pos \<lparr>link = 0, lastTicks = 0, pos = 1, arr = [0x41, 0, 0, 0 :: byte]\<rparr>
                            + length bs\<rparr>)
           else Inl IndexOutOfRange)"
    using traceAppend_varint_leb128
      [of "[0x41]" 300 "[0x07]" "\<lparr>link = 0, lastTicks = 0, pos = 1, arr = [0x41, 0, 0, 0]\<rparr>"]
    by blast
  from bs have bs_eq: "bs = [0xAC, 0x02]"
    by (simp add: traceAppend_300)
  have full: "varint \<lparr>link = 0, lastTicks = 0, pos = 3, arr = [0x41, 0, 0, 0]\<rparr> 300
       = Inl IndexOutOfRange"
    by (simp add: varint_def varint_loop.simps)
  show ?thesis
    using bs dec wr full unfolding bs_eq by simp
qed

subsection \<open>Writing into a buffer\<close>

lemma put_bytes_fields [simp]:
  "pos (put_bytes b bs) = pos b + length bs"
  "lastTicks (put_bytes b bs) = lastTicks b"
  "link (put_bytes b bs) = link b"
  by (simp_all add: put_bytes_def)

lemma put_bytes_Nil [simp]: "put_bytes b [] = b"
  by (simp add: put_bytes_def)

lemma put_bytes_length [simp]:
  "pos b + length bs \<le> length (arr b) \<Longrightarrow> length (arr (put_bytes b bs)) = length (arr b)"
  by (simp add: put_bytes_def)

lemma put_bytes_take [simp]:
  "pos b + length bs \<le> length (arr b) \<Longrightarrow> n \<le> pos b \<Longrightarrow>
     take n (arr (put_bytes b bs)) = take n (arr b)"
  by (simp add: put_bytes_def)

lemma put_bytes_written:
  "pos b + length bs \<le> length (arr b) \<Longrightarrow>
     take (length bs) (drop (pos b) (arr (put_bytes b bs))) = bs"
  by (simp add: put_bytes_def)

lemma put_bytes_take_pos:
  "pos b + length bs \<le> length (arr b) \<Longrightarrow>
     take (pos b + length bs) (arr (put_bytes b bs)) = take (pos b) (arr b) @ bs"
  by (simp add: put_bytes_def)


lemma put_bytes_put_bytes:
  "pos b + length xs \<le> length (arr b) \<Longrightarrow>
     put_bytes (put_bytes b xs) ys = put_bytes b (xs @ ys)"
  by (simp add: put_bytes_def ac_simps)

lemma put_bytes_update_lastTicks [simp]:
  "put_bytes (b\<lparr>lastTicks := t\<rparr>) bs = (put_bytes b bs)\<lparr>lastTicks := t\<rparr>"
  by (simp add: put_bytes_def)

lemma byte'_put:
  "byte' b v = (if pos b < length (arr b) then Inr (put_bytes b [v]) else Inl IndexOutOfRange)"
  by (simp add: byte'_def put_bytes_def upd_conv_take_nth_drop)

lemma varint_put:
  "varint b v =
     (if pos b + length (traceAppend [] v) \<le> length (arr b)
      then Inr (put_bytes b (traceAppend [] v)) else Inl IndexOutOfRange)"
  by (simp add: varint_eq put_bytes_def)

lemma varints_put:
  "pos b \<le> length (arr b) \<Longrightarrow>
   varints b vs =
     (if pos b + length (concat (map (traceAppend []) vs)) \<le> length (arr b)
      then Inr (put_bytes b (concat (map (traceAppend []) vs))) else Inl IndexOutOfRange)"
proof (induction vs arbitrary: b)
  case Nil
  then show ?case by simp
next
  case (Cons v vs)
  show ?case
  proof (cases "pos b + length (traceAppend [] v) \<le> length (arr b)")
    case True
    then have "pos (put_bytes b (traceAppend [] v)) \<le> length (arr (put_bytes b (traceAppend [] v)))"
      by simp
    from Cons.IH [OF this] True show ?thesis
      by (simp add: varint_put put_bytes_put_bytes add.assoc)
  next
    case False
    then show ?thesis by (simp add: varint_put)
  qed
qed

lemma copy_in_put:
  "copy_in b src =
     (if length (arr b) < pos b then Inl SliceBoundsOutOfRange
      else Inr (put_bytes b (take (length (arr b) - pos b) src)))"
  by (simp add: copy_in_def put_bytes_def Let_def min_def)

subsection \<open>The queues and the flush\<close>

lemma same_bytes_refl [simp]: "same_bytes b b"
  by (simp add: same_bytes_def)

lemma same_bytes_link [simp]: "same_bytes b (b\<lparr>link := x\<rparr>)"
  by (simp add: same_bytes_def)

lemma same_bytes_trans: "same_bytes a b \<Longrightarrow> same_bytes b c \<Longrightarrow> same_bytes a c"
  by (simp add: same_bytes_def)

lemma ptr_Inr_iff: "ptr tr p = Inr b \<longleftrightarrow> p \<noteq> 0 \<and> mem tr p = Some b"
  by (simp add: ptr_def split: option.splits)

lemma mem_kept_refl [simp]: "mem_kept tr tr"
  by (auto simp add: mem_kept_def)

lemma mem_keptI_link:
  "mem tr p = Some b \<Longrightarrow> mem_kept tr (tr\<lparr>mem := (mem tr)(p \<mapsto> b\<lparr>link := x\<rparr>)\<rparr>)"
  by (auto simp add: mem_kept_def)

lemma mem_kept_trans: "mem_kept t1 t2 \<Longrightarrow> mem_kept t2 t3 \<Longrightarrow> mem_kept t1 t3"
  unfolding mem_kept_def by (meson same_bytes_trans)

lemma mem_kept_fields: "mem tr1 = mem tr \<Longrightarrow> mem_kept tr tr1"
  by (auto simp add: mem_kept_def)

lemma traceFullQueue_Inr:
  assumes "traceFullQueue tr b = Inr tr1"
  shows "mem_kept tr tr1"
proof -
  from assms obtain bb where bb: "ptr tr b = Inr bb"
    by (auto simp add: traceFullQueue_def bindE_Inr_iff)
  then have mb: "mem tr b = Some bb" by (simp add: ptr_Inr_iff)
  let ?t1 = "tr\<lparr>mem := (mem tr)(b \<mapsto> bb\<lparr>link := 0\<rparr>)\<rparr>"
  have k1: "mem_kept tr ?t1" using mb by (rule mem_keptI_link)
  show ?thesis
  proof (cases "fullHead tr = 0")
    case True
    with assms bb have "tr1 = ?t1\<lparr>fullHead := b, fullTail := b\<rparr>"
      by (simp add: traceFullQueue_def Let_def)
    then have "mem_kept ?t1 tr1" by (simp add: mem_kept_fields)
    with k1 show ?thesis by (rule mem_kept_trans)
  next
    case False
    with assms bb obtain tl where tl: "ptr ?t1 (fullTail tr) = Inr tl"
      and tr1: "tr1 = ?t1\<lparr>mem := (mem ?t1)(fullTail tr \<mapsto> tl\<lparr>link := b\<rparr>), fullTail := b\<rparr>"
      by (auto simp add: traceFullQueue_def Let_def bindE_Inr_iff)
    from tl have "mem ?t1 (fullTail tr) = Some tl" by (simp add: ptr_Inr_iff)
    then have "mem_kept ?t1 (?t1\<lparr>mem := (mem ?t1)(fullTail tr \<mapsto> tl\<lparr>link := b\<rparr>)\<rparr>)"
      by (rule mem_keptI_link)
    moreover have "mem_kept (?t1\<lparr>mem := (mem ?t1)(fullTail tr \<mapsto> tl\<lparr>link := b\<rparr>)\<rparr>) tr1"
      unfolding tr1 by (simp add: mem_kept_fields)
    ultimately show ?thesis using k1 by (meson mem_kept_trans)
  qed
qed

lemma traceFullDequeue_Inr:
  assumes "traceFullDequeue tr = Inr (tr1, b)"
  shows "mem_kept tr tr1"
proof (cases "fullHead tr = 0")
  case True
  with assms show ?thesis by (simp add: traceFullDequeue_def Let_def)
next
  case False
  with assms obtain bb where bb: "ptr tr (fullHead tr) = Inr bb"
    and tr1: "tr1 = (if link bb = 0 then tr\<lparr>fullHead := link bb, fullTail := 0\<rparr>
                     else tr\<lparr>fullHead := link bb\<rparr>)
                 \<lparr>mem := (mem tr)(fullHead tr \<mapsto> bb\<lparr>link := 0\<rparr>)\<rparr>"
    by (auto simp add: traceFullDequeue_def Let_def bindE_Inr_iff)
  from bb have "mem tr (fullHead tr) = Some bb" by (simp add: ptr_Inr_iff)
  then show ?thesis
    unfolding tr1 by (auto simp add: mem_kept_def)
qed

lemma ReadTrace_recycle_Inr:
  assumes "ReadTrace_recycle tr = Inr tr1"
  shows "mem_kept tr tr1"
proof (cases "reading tr = 0")
  case True
  with assms show ?thesis by (simp add: ReadTrace_recycle_def)
next
  case False
  with assms obtain rb where rb: "ptr tr (reading tr) = Inr rb"
    and tr1: "tr1 = tr\<lparr>mem := (mem tr)(reading tr \<mapsto> rb\<lparr>link := empty' tr\<rparr>),
                  empty' := reading tr, reading := 0\<rparr>"
    by (auto simp add: ReadTrace_recycle_def bindE_Inr_iff)
  from rb have "mem tr (reading tr) = Some rb" by (simp add: ptr_Inr_iff)
  then show ?thesis
    unfolding tr1 by (auto simp add: mem_kept_def)
qed

lemma batch_header_byte [simp]: "traceEvBatch OR 2 ^ traceArgCountShift = (0x41 :: byte)"
  by (simp add: traceEvBatch_def traceArgCountShift_def)

lemma traceFlush_init_Inr:
  assumes "traceFlush_init a old pid now = Inr b5"
  shows "b5 = fresh_batch a old pid now
     \<and> length (Batch_event pid (flush_ticks a old now)) \<le> length (arr old)"
proof -
  let ?b = "old\<lparr>link := 0, pos := 0, lastTicks := flush_ticks a old now\<rparr>"
  let ?t = "flush_ticks a old now"
  from assms have "\<exists>b3 b4. byte' ?b 0x41 = Inr b3
      \<and> varint b3 (scast pid) = Inr b4 \<and> varint b4 ?t = Inr b5"
    by (auto simp add: traceFlush_init_def Let_def bindE_Inr_iff flush_ticks_def split: if_splits)
  then obtain b3 b4 where w1: "byte' ?b 0x41 = Inr b3"
    and w2: "varint b3 (scast pid) = Inr b4" and w3: "varint b4 ?t = Inr b5"
    by blast
  from w1 have r1: "pos ?b < length (arr ?b)" and e3: "b3 = put_bytes ?b [0x41]"
    by (auto simp add: byte'_put split: if_splits)
  from w2 have r2: "pos b3 + length (traceAppend [] (scast pid :: uint64)) \<le> length (arr b3)"
    and e4: "b4 = put_bytes b3 (traceAppend [] (scast pid))"
    by (auto simp add: varint_put split: if_splits)
  from w3 have r3: "pos b4 + length (traceAppend [] ?t) \<le> length (arr b4)"
    and e5: "b5 = put_bytes b4 (traceAppend [] ?t)"
    by (auto simp add: varint_put split: if_splits)
  have p1: "pos ?b + length [0x41 :: byte] \<le> length (arr ?b)"
    using r1 by (cases "arr old") simp_all
  have l3: "length (arr b3) = length (arr ?b)" unfolding e3 using p1 by (rule put_bytes_length)
  have e4': "b4 = put_bytes ?b (0x41 # traceAppend [] (scast pid))"
    unfolding e4 e3 using put_bytes_put_bytes [OF p1] by simp
  have p2: "pos ?b + length (0x41 # traceAppend [] (scast pid :: uint64)) \<le> length (arr ?b)"
    using r2 l3 e3 by simp
  have l4: "length (arr b4) = length (arr ?b)" unfolding e4' using p2 by (rule put_bytes_length)
  have e5': "b5 = put_bytes ?b (Batch_event pid ?t)"
    unfolding e5 e4' using put_bytes_put_bytes [OF p2] by (simp add: Batch_event_def)
  have "length (Batch_event pid ?t) \<le> length (arr ?b)"
    using r3 l4 unfolding e4' by (simp add: Batch_event_def)
  with e5' show ?thesis by (simp add: fresh_batch_def)
qed

lemma traceFlush_take_Inr:
  assumes "traceFlush_take tr1 e = Inr (t2, nb)" and "ptr t2 nb = Inr old"
  shows "nb \<noteq> 0 \<and> (old = zeroBuf \<or> mem tr1 nb = Some old)
    \<and> (\<forall>p. p \<noteq> nb \<longrightarrow> mem t2 p = mem tr1 p)"
proof (cases "empty' tr1 = 0")
  case True
  with assms(1) have "t2 = tr1\<lparr>mem := (mem tr1)(sysAlloc e \<mapsto> zeroBuf)\<rparr>" "nb = sysAlloc e"
    by (auto simp add: traceFlush_take_def split: if_splits)
  with assms(2) show ?thesis by (auto simp add: ptr_Inr_iff)
next
  case False
  with assms(1) have "\<exists>eb :: traceBuf. t2 = tr1\<lparr>empty' := link eb\<rparr> \<and> nb = empty' tr1"
    by (auto simp add: traceFlush_take_def bindE_Inr_iff)
  with assms(2) show ?thesis by (auto simp add: ptr_Inr_iff)
qed

lemma traceFlush_Inr:
  assumes "traceFlush a tr b pid e = Inr (tr2, nb)"
  shows "\<exists>old tr1. nb \<noteq> 0 \<and> mem_kept tr tr1
     \<and> (old = zeroBuf \<or> mem tr1 nb = Some old)
     \<and> length (Batch_event pid (flush_ticks a old (flush_cputicks e))) \<le> length (arr old)
     \<and> mem tr2 nb = Some (fresh_batch a old pid (flush_cputicks e))
     \<and> (\<forall>p. p \<noteq> nb \<longrightarrow> mem tr2 p = mem tr1 p)"
proof -
  from assms have "\<exists>tr1 t2 old b5.
      (if b \<noteq> 0 then traceFullQueue tr b else Inr tr) = Inr tr1
      \<and> traceFlush_take tr1 e = Inr (t2, nb)
      \<and> ptr t2 nb = Inr old
      \<and> traceFlush_init a old pid (flush_cputicks e) = Inr b5
      \<and> tr2 = t2\<lparr>mem := (mem t2)(nb \<mapsto> b5)\<rparr>"
    by (auto simp add: traceFlush_def bindE_Inr_iff)
  then obtain tr1 t2 old b5 where
    q: "(if b \<noteq> 0 then traceFullQueue tr b else Inr tr) = Inr tr1"
    and tk: "traceFlush_take tr1 e = Inr (t2, nb)"
    and old: "ptr t2 nb = Inr old"
    and ini: "traceFlush_init a old pid (flush_cputicks e) = Inr b5"
    and fin: "tr2 = t2\<lparr>mem := (mem t2)(nb \<mapsto> b5)\<rparr>"
    by blast
  have k1: "mem_kept tr tr1"
    using q by (cases "b = 0") (auto dest: traceFullQueue_Inr)
  from traceFlush_take_Inr [OF tk old] traceFlush_init_Inr [OF ini] k1 fin
  show ?thesis
    by (intro exI [of _ old] exI [of _ tr1]) simp
qed

subsection \<open>Writing an event\<close>

lemma wrote_byte: "byte' b v = Inr b' \<Longrightarrow> wrote b [v] b'"
  by (cases "arr b") (auto simp add: byte'_put wrote_def split: if_splits)

lemma wrote_varint: "varint b v = Inr b' \<Longrightarrow> wrote b (traceAppend [] v) b'"
  by (auto simp add: varint_put wrote_def split: if_splits)

lemma wrote_varints:
  "pos b \<le> length (arr b) \<Longrightarrow> varints b vs = Inr b'
     \<Longrightarrow> wrote b (concat (map (traceAppend []) vs)) b'"
  by (auto simp add: varints_put wrote_def split: if_splits)

lemma wrote_copy_in:
  "copy_in b src = Inr b' \<Longrightarrow> wrote b (take (length (arr b) - pos b) src) b'"
  by (auto simp add: copy_in_put wrote_def split: if_splits)

lemma wrote_refl: "pos b \<le> length (arr b) \<Longrightarrow> wrote b [] b"
  by (simp add: wrote_def)

lemma wrote_trans: "wrote b xs b1 \<Longrightarrow> wrote b1 ys b2 \<Longrightarrow> wrote b (xs @ ys) b2"
  by (auto simp add: wrote_def put_bytes_put_bytes)

lemma wrote_pos: "wrote b bs b' \<Longrightarrow> pos b' = pos b + length bs"
  by (simp add: wrote_def)

lemma wrote_pos_le: "wrote b bs b' \<Longrightarrow> pos b' \<le> length (arr b')"
  by (simp add: wrote_def)

lemma wrote_length: "wrote b bs b' \<Longrightarrow> length (arr b') = length (arr b)"
  by (simp add: wrote_def)

lemma wrote_take: "wrote b bs b' \<Longrightarrow> n \<le> pos b \<Longrightarrow> take n (arr b') = take n (arr b)"
  by (simp add: wrote_def)

lemma wrote_lastTicks: "wrote b bs b' \<Longrightarrow> lastTicks b' = lastTicks b"
  by (simp add: wrote_def)

lemma wrote_bytes: "wrote b bs b' \<Longrightarrow> take (length bs) (drop (pos b) (arr b')) = bs"
  by (simp add: wrote_def put_bytes_written)

lemma enc_zero [simp]: "traceAppend [] 0 = [0]"
  by (simp add: traceAppend.simps)

lemma throw_else_Inr_iff: "((if c then Inl x else Inr v) = Inr y) = (\<not> c \<and> v = y)"
  by simp

lemma traceEventLocked_write_Inr:
  assumes "traceEventLocked_write a h t b maxSize ev stackID skip args e = Inr (t2, b7)"
  shows "\<exists>sb b6.
      wrote (b\<lparr>lastTicks := event_ticks a b (cputicks e)\<rparr>)
        (event_bytes ev (traceEventLocked_narg args stackID skip)
           (event_tickDiff a b (cputicks e)) args @ sb) b6
    \<and> int (length (event_bytes ev (traceEventLocked_narg args stackID skip)
           (event_tickDiff a b (cputicks e)) args @ sb)) \<le> maxSize
    \<and> b7 = (if traceEventLocked_narg args stackID skip = 3
             then b6\<lparr>arr := (arr b6)[pos b + 1 :=
                    of_int (int (length (event_bytes ev (traceEventLocked_narg args stackID skip)
                       (event_tickDiff a b (cputicks e)) args @ sb)) - 2)]\<rparr>
             else b6)
    \<and> (stackID \<noteq> 0 \<longrightarrow> sb = traceAppend [] (ucast stackID) \<and> t2 = t)
    \<and> (stackID = 0 \<and> skip = 0 \<longrightarrow> sb = [0] \<and> t2 = t)
    \<and> (stackID = 0 \<and> 0 < skip \<longrightarrow>
          (\<exists>sid. traceStackID h t (mp e) = Inr (sid, t2) \<and> sb = traceAppend [] sid))
    \<and> (stackID = 0 \<and> skip < 0 \<longrightarrow> sb = [] \<and> t2 = t)"
proof -
  let ?narg = "traceEventLocked_narg args stackID skip"
  let ?td = "event_tickDiff a b (cputicks e)"
  let ?b1 = "b\<lparr>lastTicks := event_ticks a b (cputicks e)\<rparr>"
  let ?hdr = "ev OR push_bit traceArgCountShift ?narg"
  from assms have "\<exists>b2 b3 b4 b5 b6.
      byte' ?b1 ?hdr = Inr b2
    \<and> (if ?narg = 3 then varint b2 0 else Inr b2) = Inr b3
    \<and> varint b3 ?td = Inr b4
    \<and> varints b4 args = Inr b5
    \<and> (if stackID \<noteq> 0 then bindE (varint b5 (ucast stackID)) (\<lambda>b6. Inr (t, b6))
             else if skip = 0 then bindE (varint b5 0) (\<lambda>b6. Inr (t, b6))
             else if 0 < skip then
               bindE (traceStackID h t (mp e)) (\<lambda>(sid, t1).
               bindE (varint b5 sid) (\<lambda>b6. Inr (t1, b6)))
             else Inr (t, b5)) = Inr (t2, b6)
    \<and> \<not> maxSize < int (pos b6) - int (pos b)
    \<and> b7 = (if ?narg = 3
             then b6\<lparr>arr := (arr b6)[pos b3 - 1 := of_int (int (pos b6) - int (pos b) - 2)]\<rparr>
             else b6)"
    by (auto simp add: traceEventLocked_write_def Let_def bindE_Inr_iff event_ticks_def
        event_tickDiff_def throw_else_Inr_iff split del: if_split cong: if_cong)
  then obtain b2 b3 b4 b5 b6 where
    w2: "byte' ?b1 ?hdr = Inr b2"
    and w3: "(if ?narg = 3 then varint b2 0 else Inr b2) = Inr b3"
    and w4: "varint b3 ?td = Inr b4"
    and w5: "varints b4 args = Inr b5"
    and w6: "(if stackID \<noteq> 0 then bindE (varint b5 (ucast stackID)) (\<lambda>b6. Inr (t, b6))
             else if skip = 0 then bindE (varint b5 0) (\<lambda>b6. Inr (t, b6))
             else if 0 < skip then
               bindE (traceStackID h t (mp e)) (\<lambda>(sid, t1).
               bindE (varint b5 sid) (\<lambda>b6. Inr (t1, b6)))
             else Inr (t, b5)) = Inr (t2, b6)"
    and sz: "\<not> maxSize < int (pos b6) - int (pos b)"
    and b7: "b7 = (if ?narg = 3
             then b6\<lparr>arr := (arr b6)[pos b3 - 1 := of_int (int (pos b6) - int (pos b) - 2)]\<rparr>
             else b6)"
    by blast
  have r2: "wrote ?b1 [?hdr] b2" using w2 by (rule wrote_byte)
  have r3: "wrote b2 (if ?narg = 3 then [0] else []) b3"
    using w3 wrote_varint [of b2 0 b3] wrote_refl [OF wrote_pos_le [OF r2]]
    by (auto split: if_splits)
  have r4: "wrote b3 (traceAppend [] ?td) b4" using w4 by (rule wrote_varint)
  have r5: "wrote b4 (concat (map (traceAppend []) args)) b5"
    using wrote_pos_le [OF r4] w5 by (rule wrote_varints)
  have r15: "wrote ?b1 (event_bytes ev ?narg ?td args) b5"
    using wrote_trans [OF wrote_trans [OF wrote_trans [OF r2 r3] r4] r5]
    by (simp add: event_bytes_def)
  have p3: "?narg = 3 \<Longrightarrow> pos b3 - 1 = pos b + 1"
    using wrote_pos [OF r2] wrote_pos [OF r3] by simp
  have stk: "\<exists>sb. wrote b5 sb b6
      \<and> (stackID \<noteq> 0 \<longrightarrow> sb = traceAppend [] (ucast stackID) \<and> t2 = t)
      \<and> (stackID = 0 \<and> skip = 0 \<longrightarrow> sb = [0] \<and> t2 = t)
      \<and> (stackID = 0 \<and> 0 < skip \<longrightarrow>
            (\<exists>sid. traceStackID h t (mp e) = Inr (sid, t2) \<and> sb = traceAppend [] sid))
      \<and> (stackID = 0 \<and> skip < 0 \<longrightarrow> sb = [] \<and> t2 = t)"
  proof (cases "stackID \<noteq> 0")
    case True
    with w6 have "varint b5 (ucast stackID) = Inr b6" "t2 = t"
      by (auto simp add: bindE_Inr_iff)
    with True show ?thesis
      by (intro exI [of _ "traceAppend [] (ucast stackID)"]) (simp add: wrote_varint)
  next
    case False
    then have s0: "stackID = 0" by simp
    consider "skip = 0" | "0 < skip" | "skip < 0" by linarith
    then show ?thesis
    proof cases
      case 1
      with w6 s0 have "varint b5 0 = Inr b6" "t2 = t"
        by (auto simp add: bindE_Inr_iff)
      with 1 s0 wrote_varint [of b5 0 b6] show ?thesis
        by (intro exI [of _ "[0]"]) simp
    next
      case 2
      with w6 s0 have "\<exists>sid. traceStackID h t (mp e) = Inr (sid, t2) \<and> varint b5 sid = Inr b6"
        by (auto simp add: bindE_Inr_iff)
      then obtain sid where "traceStackID h t (mp e) = Inr (sid, t2)" "varint b5 sid = Inr b6"
        by blast
      with 2 s0 show ?thesis
        by (intro exI [of _ "traceAppend [] sid"]) (auto simp add: wrote_varint)
    next
      case 3
      with w6 s0 have "b6 = b5" "t2 = t" by auto
      with 3 s0 wrote_refl [OF wrote_pos_le [OF r5]] show ?thesis
        by (intro exI [of _ "[]"]) simp
    qed
  qed
  then obtain sb where r6: "wrote b5 sb b6"
    and sbs: "stackID \<noteq> 0 \<longrightarrow> sb = traceAppend [] (ucast stackID) \<and> t2 = t"
      "stackID = 0 \<and> skip = 0 \<longrightarrow> sb = [0] \<and> t2 = t"
      "stackID = 0 \<and> 0 < skip \<longrightarrow>
            (\<exists>sid. traceStackID h t (mp e) = Inr (sid, t2) \<and> sb = traceAppend [] sid)"
      "stackID = 0 \<and> skip < 0 \<longrightarrow> sb = [] \<and> t2 = t"
    by blast
  have r16: "wrote ?b1 (event_bytes ev ?narg ?td args @ sb) b6"
    using r15 r6 by (rule wrote_trans)
  have evSize: "int (pos b6) - int (pos b) = int (length (event_bytes ev ?narg ?td args @ sb))"
    using wrote_pos [OF r16] by simp
  show ?thesis
    using r16 sz b7 sbs p3 unfolding evSize
    by (intro exI [of _ sb] exI [of _ b6]) auto
qed

subsection \<open>The syscall-exit hook\<close>

lemma traceGoSysExit_ts_before: "ts <s ticksStart tr \<Longrightarrow> traceGoSysExit_ts tr ts = 0"
  by (simp add: traceGoSysExit_ts_def)

text \<open>
  Claim C7. For every call of \<open>traceGoSysExit\<close> with \<open>ts\<close> below \<open>ticksStart\<close> (as
  signed 64-bit values) the substituted time stamp is 0, the argument list of the
  GoSysExit event is the goroutine id, the incremented sequence number and 0, and the
  third argument is written as the single byte 0.
\<close>

theorem traceGoSysExit_before_start:
  assumes "ts <s ticksStart tr"
  shows "traceGoSysExit_ts tr ts = 0
    \<and> traceGoSysExit_args a tr gp ts = [goid gp, traceseq gp + 1, 0]
    \<and> traceGoSysExit a memhash tr cur gp ts e =
        (gp\<lparr>traceseq := traceseq gp + 1, tracelastp := m_p cur\<rparr>,
         traceEvent a memhash tr cur traceEvGoSysExit (- 1) [goid gp, traceseq gp + 1, 0] e)
    \<and> traceAppend [] (traceGoSysExit_args a tr gp ts ! 2) = [0]"
proof -
  have ts0: "traceGoSysExit_ts tr ts = 0"
    using assms by (rule traceGoSysExit_ts_before)
  have args: "traceGoSysExit_args a tr gp ts = [goid gp, traceseq gp + 1, 0]"
    by (simp add: traceGoSysExit_args_def ts0)
  have enc0: "traceAppend [] (0 :: uint64) = [0]"
    by (simp add: traceAppend.simps)
  show ?thesis
    by (simp add: ts0 args enc0 traceGoSysExit_def Let_def)
qed

theorem traceGoSysExit_before_start_witness:
  "traceGoSysExit_ts (trace0\<lparr>ticksStart := 1000\<rparr>) 999 = 0
   \<and> traceGoSysExit_ts (trace0\<lparr>ticksStart := 1000\<rparr>) (- 5) = 0
   \<and> traceGoSysExit_args Amd64 (trace0\<lparr>ticksStart := 1000\<rparr>)
        \<lparr>goid = 7, traceseq = 3, tracelastp = None\<rparr> 999 = [7, 4, 0]
   \<and> traceGoSysExit_args Amd64 (trace0\<lparr>ticksStart := 1000\<rparr>)
        \<lparr>goid = 7, traceseq = 3, tracelastp = None\<rparr> 1280 = [7, 4, 20]"
proof -
  have h1: "(999 :: int64) <s ticksStart (trace0\<lparr>ticksStart := 1000\<rparr>)"
    by (simp add: word_sless_alt)
  have h2: "(- 5 :: int64) <s ticksStart (trace0\<lparr>ticksStart := 1000\<rparr>)"
    by (simp add: word_sless_alt)
  have later: "traceGoSysExit_args Amd64 (trace0\<lparr>ticksStart := 1000\<rparr>)
        \<lparr>goid = 7, traceseq = 3, tracelastp = None\<rparr> 1280 = [7, 4, 20]"
    by (simp add: traceGoSysExit_args_def traceGoSysExit_ts_def word_sless_alt
        traceTickDiv_def Is386_def IsAmd64_def)
  show ?thesis
    using traceGoSysExit_before_start [OF h1, of Amd64 "\<lparr>goid = 7, traceseq = 3, tracelastp = None\<rparr>"]
      traceGoSysExit_before_start [OF h2] later
    by simp
qed


subsection \<open>The reader\<close>

text \<open>
  Claim C9. When \<open>ReadTrace\<close> is entered while a reader is registered
  (\<open>reader\<close> is not nil), it prints the diagnostic, returns nil and leaves the
  reader registration, the buffer being read, the empty list, the full queue, the
  header and footer flags, \<open>enabled\<close>, \<open>shutdown\<close> and every buffer as they were: the
  state after the call is the state before it with \<open>lockOwner\<close> reset to nil, the lock
  bookkeeping the call itself had set on entry.
\<close>

theorem ReadTrace_second_reader:
  assumes "reader tr \<noteq> 0"
  shows "\<exists>tr'. ReadTrace tr gp readCPU freq dump =
           Inr (tr', Returned None,
                [''runtime: ReadTrace called from multiple goroutines simultaneously''])
    \<and> tr' = tr\<lparr>lockOwner := 0\<rparr>
    \<and> reader tr' = reader tr \<and> reading tr' = reading tr \<and> empty' tr' = empty' tr
    \<and> fullHead tr' = fullHead tr \<and> fullTail tr' = fullTail tr
    \<and> headerWritten tr' = headerWritten tr \<and> footerWritten tr' = footerWritten tr
    \<and> enabled tr' = enabled tr \<and> shutdown tr' = shutdown tr \<and> mem tr' = mem tr"
  using assms by (simp add: ReadTrace_def Let_def)

theorem ReadTrace_second_reader_witness:
  "ReadTrace (trace0\<lparr>lockOwner := 7, headerWritten := True, fullHead := 3, fullTail := 3,
                       reader := 7\<rparr>) 9 Inr None Inr =
     Inr (trace0\<lparr>lockOwner := 0, headerWritten := True, fullHead := 3, fullTail := 3,
                  reader := 7\<rparr>, Returned None,
          [''runtime: ReadTrace called from multiple goroutines simultaneously''])"
proof -
  let ?tr = "trace0\<lparr>lockOwner := 7, headerWritten := True, fullHead := 3, fullTail := 3,
                    reader := 7\<rparr>"
  have h: "reader ?tr \<noteq> 0" by simp
  from ReadTrace_second_reader [of ?tr 9 Inr None Inr, OF h]
  show ?thesis by auto
qed

subsection \<open>The clock capture of StopTrace\<close>

lemma StopTrace_clock_exit:
  "snd (clock i) \<noteq> tstart \<Longrightarrow>
     StopTrace_clock clock tstart i = Some (fst (clock i), snd (clock i), i)"
  by (subst StopTrace_clock.simps) simp

lemma StopTrace_clock_spin:
  "snd (clock i) = tstart \<Longrightarrow>
     StopTrace_clock clock tstart i = StopTrace_clock clock tstart (Suc i)"
  by (subst StopTrace_clock.simps) simp

lemma StopTrace_clock_returns:
  "i \<le> j \<Longrightarrow> snd (clock j) \<noteq> tstart \<Longrightarrow>
     \<exists>k. i \<le> k \<and> k \<le> j \<and> snd (clock k) \<noteq> tstart
       \<and> (\<forall>l. i \<le> l \<and> l < k \<longrightarrow> snd (clock l) = tstart)
       \<and> StopTrace_clock clock tstart i = Some (fst (clock k), snd (clock k), k)"
proof (induction "j - i" arbitrary: i)
  case 0
  then have "i = j" by simp
  with 0 show ?case
    by (intro exI [of _ i]) (auto simp add: StopTrace_clock_exit)
next
  case (Suc d)
  show ?case
  proof (cases "snd (clock i) = tstart")
    case False
    then show ?thesis
      using Suc.prems by (intro exI [of _ i]) (auto simp add: StopTrace_clock_exit)
  next
    case True
    have "d = j - Suc i" "Suc i \<le> j" using Suc.hyps(2) by simp_all
    from Suc.hyps(1) [OF this Suc.prems(2)]
    obtain k where k: "Suc i \<le> k" "k \<le> j" "snd (clock k) \<noteq> tstart"
      "\<forall>l. Suc i \<le> l \<and> l < k \<longrightarrow> snd (clock l) = tstart"
      "StopTrace_clock clock tstart (Suc i) = Some (fst (clock k), snd (clock k), k)"
      by blast
    have "\<forall>l. i \<le> l \<and> l < k \<longrightarrow> snd (clock l) = tstart"
    proof (intro allI impI)
      fix l assume l: "i \<le> l \<and> l < k"
      show "snd (clock l) = tstart"
      proof (cases "l = i")
        case True with \<open>snd (clock i) = tstart\<close> show ?thesis by simp
      next
        case False
        with l have "Suc i \<le> l \<and> l < k" by simp
        with k(4) show ?thesis by blast
      qed
    qed
    with k True show ?thesis
      by (intro exI [of _ k]) (simp add: StopTrace_clock_spin)
  qed
qed

lemma StopTrace_clock_Some_changes:
  assumes "StopTrace_clock clock tstart i = Some r"
  shows "\<exists>j\<ge>i. snd (clock j) \<noteq> tstart"
proof (rule StopTrace_clock.raw_induct
    [where P = "\<lambda>clock tstart i r. \<exists>j\<ge>i. snd (clock j) \<noteq> tstart", OF _ assms])
  fix f :: "(nat \<Rightarrow> int64 \<times> int64) \<Rightarrow> int64 \<Rightarrow> nat \<Rightarrow> (int64 \<times> int64 \<times> nat) option"
    and c :: "nat \<Rightarrow> int64 \<times> int64" and t :: int64 and k :: nat and y
  assume IH: "\<And>c t k y. f c t k = Some y \<Longrightarrow> \<exists>j\<ge>k. snd (c j) \<noteq> t"
    and step: "(if snd (c k) \<noteq> t then Some (fst (c k), snd (c k), k) else f c t (Suc k)) = Some y"
  show "\<exists>j\<ge>k. snd (c j) \<noteq> t"
  proof (cases "snd (c k) = t")
    case True
    with step have "f c t (Suc k) = Some y" by simp
    from IH [OF this] obtain j where "Suc k \<le> j" "snd (c j) \<noteq> t" by blast
    then have "k \<le> j \<and> snd (c j) \<noteq> t" by simp
    then show ?thesis by blast
  next
    case False
    then have "k \<le> k \<and> snd (c k) \<noteq> t" by simp
    then show ?thesis by blast
  qed
qed

lemma StopTrace_clock_never:
  assumes "\<forall>j\<ge>i. snd (clock j) = tstart"
  shows "StopTrace_clock clock tstart i = None"
proof (cases "StopTrace_clock clock tstart i")
  case None
  then show ?thesis .
next
  case (Some r)
  from StopTrace_clock_Some_changes [OF this] assms show ?thesis by blast
qed


text \<open>
  Claim C8, as amended. If some round of the loop reads a \<open>nanotime()\<close> different from
  \<open>timeStart\<close>, the loop ends in the first such round \<open>k\<close>, after re-reading both
  clocks in every round before it; it leaves \<open>timeEnd \<noteq> timeStart\<close>, and
  \<open>timeEnd > timeStart\<close> when \<open>nanotime()\<close> never reads below \<open>timeStart\<close>. \<open>ticksEnd\<close> is
  what \<open>cputicks()\<close> read in round \<open>k\<close>: the loop does not compare it with
  \<open>ticksStart\<close>.
\<close>

theorem StopTrace_loop_exit:
  assumes "snd (clock j) \<noteq> timeStart tr"
  shows "\<exists>k\<le>j. (\<forall>l<k. snd (clock l) = timeStart tr)
      \<and> snd (clock k) \<noteq> timeStart tr
      \<and> StopTrace_loop tr clock =
            Some (tr\<lparr>ticksEnd := fst (clock k), timeEnd := snd (clock k)\<rparr>)
      \<and> ((\<forall>l. timeStart tr \<le>s snd (clock l)) \<longrightarrow> timeStart tr <s snd (clock k))"
proof -
  from StopTrace_clock_returns [of 0 j clock "timeStart tr"] assms
  obtain k where k: "k \<le> j" "snd (clock k) \<noteq> timeStart tr"
    "\<forall>l. 0 \<le> l \<and> l < k \<longrightarrow> snd (clock l) = timeStart tr"
    "StopTrace_clock clock (timeStart tr) 0 = Some (fst (clock k), snd (clock k), k)"
    by blast
  have mono: "timeStart tr <s snd (clock k)" if "\<forall>l. timeStart tr \<le>s snd (clock l)"
  proof -
    from that have "timeStart tr \<le>s snd (clock k)" by blast
    with k(2) show ?thesis
      by (simp add: signed.less_le)
  qed
  show ?thesis
    using k mono by (intro exI [of _ k]) (simp add: StopTrace_loop_def)
qed

lemma clock_of_simps [simp]:
  "clock_of rs i = (if i < length rs then rs ! i else last rs)"
  by (simp add: clock_of_def)

theorem StopTrace_loop_exit_witness:
  "StopTrace_loop (trace0\<lparr>ticksStart := 100, timeStart := 5\<rparr>)
       (clock_of [(100, 5), (130, 5), (163, 6)])
     = Some (trace0\<lparr>ticksStart := 100, timeStart := 5, ticksEnd := 163, timeEnd := 6\<rparr>)
   \<and> (5 :: int64) <s 6"
proof -
  let ?tr = "trace0\<lparr>ticksStart := 100, timeStart := 5\<rparr>"
  let ?clock = "clock_of [(100, 5), (130, 5), (163, 6)]"
  have h: "snd (?clock 2) \<noteq> timeStart ?tr" by simp
  have mono: "\<forall>l. timeStart ?tr \<le>s snd (?clock l)"
  proof
    fix l :: nat
    have "l = 0 \<or> l = 1 \<or> 2 \<le> l" by arith
    then show "timeStart ?tr \<le>s snd (?clock l)"
      by (auto simp add: word_sle_eq nth_Cons')
  qed
  from StopTrace_loop_exit [of ?clock 2 ?tr, OF h]
  obtain k where k: "k \<le> 2" "\<forall>l<k. snd (?clock l) = timeStart ?tr"
    "snd (?clock k) \<noteq> timeStart ?tr"
    "StopTrace_loop ?tr ?clock = Some (?tr\<lparr>ticksEnd := fst (?clock k), timeEnd := snd (?clock k)\<rparr>)"
    "(\<forall>l. timeStart ?tr \<le>s snd (?clock l)) \<longrightarrow> timeStart ?tr <s snd (?clock k)"
    by blast
  from k(1) have "k = 0 \<or> k = 1 \<or> k = 2" by arith
  with k(3) have k2: "k = 2" by auto
  show ?thesis
    using k(4) k(5) mono unfolding k2 by simp
qed

text \<open>
  The claim C8 as stated fails: on a coarse clock \<open>cputicks()\<close> can read in the last
  round what it read at the start, and the loop ends with \<open>ticksEnd = ticksStart\<close>.
\<close>

theorem StopTrace_loop_ticks_counterexample:
  "StopTrace_loop (trace0\<lparr>ticksStart := 100, timeStart := 5\<rparr>) (clock_of [(100, 5), (100, 6)])
     = Some (trace0\<lparr>ticksStart := 100, timeStart := 5, ticksEnd := 100, timeEnd := 6\<rparr>)
   \<and> \<not> ticksStart (trace0\<lparr>ticksStart := 100, timeStart := 5, ticksEnd := 100, timeEnd := 6\<rparr>)
         <s ticksEnd (trace0\<lparr>ticksStart := 100, timeStart := 5, ticksEnd := 100, timeEnd := 6\<rparr>)"
proof -
  have "StopTrace_clock (clock_of [(100, 5), (100, 6)]) 5 0 = Some (100, 6, 1)"
    by (simp add: StopTrace_clock_spin StopTrace_clock_exit)
  then show ?thesis
    by (simp add: StopTrace_loop_def)
qed

subsection \<open>Facts about the examples\<close>

lemma traceTickDiv_Amd64 [simp]: "traceTickDiv Amd64 = 64"
  by (simp add: traceTickDiv_def Is386_def IsAmd64_def)

lemma traceBufArrLen_eq: "traceBufArrLen = 64488"
  by (simp add: traceBufArrLen_def traceBufHeaderSize_def traceStackSize_def)

subsection \<open>The frequency of the footer\<close>

lemma pow2_powi: "pow2 e = 2 powi e"
  by (simp add: pow2_def power_int_def field_simps)

lemma pow2_pos [simp]: "0 < pow2 e"
  by (simp add: pow2_powi)

lemma pow2_less_iff [simp]: "pow2 a < pow2 b \<longleftrightarrow> a < b"
proof
  assume "a < b"
  then show "pow2 a < pow2 b"
    unfolding pow2_powi by (intro power_int_strict_increasing) simp_all
next
  assume l: "pow2 a < pow2 b"
  show "a < b"
  proof (rule ccontr)
    assume "\<not> a < b"
    then have "b \<le> a" by simp
    then have "pow2 b \<le> pow2 a"
      unfolding pow2_powi by (intro power_int_increasing) simp_all
    with l show False by simp
  qed
qed

lemma pow2_le_iff [simp]: "pow2 a \<le> pow2 b \<longleftrightarrow> a \<le> b"
  using pow2_less_iff [of b a] by (simp only: not_less [symmetric])

lemma pow2_add: "pow2 (a + b) = pow2 a * pow2 b"
  by (simp add: pow2_powi power_int_add)

lemma pow2_diff: "pow2 (a - b) = pow2 a / pow2 b"
  by (simp add: pow2_powi power_int_diff)

lemma pow2_nat: "pow2 (int n) = 2 ^ n"
  by (simp add: pow2_def)

lemma bitlen_pow2_bounds:
  assumes "0 < p"
  shows "pow2 (bitlen p - 1) \<le> of_int p" and "of_int p < pow2 (bitlen p)"
proof -
  from assms have b: "1 \<le> bitlen p"
    using bitlen_eq_zero_iff [of p] bitlen_nonneg [of p] by linarith
  from bitlen_bounds [OF assms] have "(2 :: int) ^ nat (bitlen p - 1) \<le> p" "p < 2 ^ nat (bitlen p)"
    by simp_all
  then have "(of_int (2 ^ nat (bitlen p - 1)) :: rat) \<le> of_int p"
    "(of_int p :: rat) < of_int (2 ^ nat (bitlen p))"
    by (simp_all only: of_int_le_iff of_int_less_iff)
  with b show "pow2 (bitlen p - 1) \<le> of_int p" and "of_int p < pow2 (bitlen p)"
    by (simp_all add: pow2_def)
qed

lemma binade_bounds:
  assumes "x \<noteq> 0"
  shows "pow2 (binade x) \<le> \<bar>x\<bar> \<and> \<bar>x\<bar> < pow2 (binade x + 1)"
proof -
  obtain p q where pq: "quotient_of x = (p, q)" by (cases "quotient_of x")
  then have q: "0 < q" and x: "x = of_int p / of_int q"
    using quotient_of_denom_pos [OF pq] quotient_of_div [OF pq] by simp_all
  with assms have p: "0 < \<bar>p\<bar>" by auto
  let ?k = "bitlen \<bar>p\<bar> - bitlen q"
  have ax: "\<bar>x\<bar> = of_int \<bar>p\<bar> / of_int q"
    using q by (simp add: x abs_divide)
  have qpos: "(0 :: rat) < of_int q" using q by simp
  have "\<bar>x\<bar> < pow2 (bitlen \<bar>p\<bar>) / pow2 (bitlen q - 1)"
  proof -
    have "of_int \<bar>p\<bar> / of_int q < pow2 (bitlen \<bar>p\<bar>) / (of_int q :: rat)"
      using bitlen_pow2_bounds(2) [OF p] qpos by (simp add: divide_strict_right_mono)
    also have "\<dots> \<le> pow2 (bitlen \<bar>p\<bar>) / pow2 (bitlen q - 1)"
      using bitlen_pow2_bounds(1) [OF q] qpos
      by (intro divide_left_mono) (simp_all add: less_imp_le)
    finally show ?thesis by (simp only: ax)
  qed
  then have up: "\<bar>x\<bar> < pow2 (?k + 1)"
    by (simp add: pow2_diff [symmetric] algebra_simps)
  have "pow2 (bitlen \<bar>p\<bar> - 1) / pow2 (bitlen q) \<le> \<bar>x\<bar>"
  proof -
    have "pow2 (bitlen \<bar>p\<bar> - 1) / pow2 (bitlen q) \<le> pow2 (bitlen \<bar>p\<bar> - 1) / (of_int q :: rat)"
      using bitlen_pow2_bounds(2) [OF q] qpos
      by (intro divide_left_mono) (simp_all add: less_imp_le)
    also have "\<dots> \<le> of_int \<bar>p\<bar> / of_int q"
      using bitlen_pow2_bounds(1) [OF p] qpos by (simp add: divide_right_mono)
    finally show ?thesis by (simp only: ax)
  qed
  then have lo: "pow2 (?k - 1) \<le> \<bar>x\<bar>"
    by (simp add: pow2_diff [symmetric] algebra_simps)
  show ?thesis
    using lo up by (simp add: binade_def pq Let_def not_le)
qed



lemma round_half_even_int [simp]: "round_half_even (of_int m) = m"
  by (simp add: round_half_even_def)


lemma float64_round_int:
  assumes "\<bar>i\<bar> < 2 ^ 53"
  shows "float64_round (of_int i) = Finite (of_int i)"
proof (cases "i = 0")
  case True
  then show ?thesis by (simp add: float64_round_def)
next
  case False
  let ?x = "of_int i :: rat"
  let ?e = "binade ?x - 52"
  from False have x0: "?x \<noteq> 0" by simp
  have ai: "\<bar>?x\<bar> < pow2 53"
  proof -
    have "(of_int \<bar>i\<bar> :: rat) < of_int (2 ^ 53)"
      using assms by (simp only: of_int_less_iff)
    then show ?thesis by (simp add: pow2_def)
  qed
  from binade_bounds [OF x0] ai have "pow2 (binade ?x) < pow2 53" by linarith
  then have b: "binade ?x \<le> 52" by simp
  have "pow2 0 \<le> \<bar>?x\<bar>"
  proof -
    from False have "1 \<le> \<bar>i\<bar>" by simp
    then have "(of_int 1 :: rat) \<le> of_int \<bar>i\<bar>" by (simp only: of_int_le_iff)
    then show ?thesis by (simp add: pow2_def)
  qed
  with binade_bounds [OF x0] have "pow2 0 < pow2 (binade ?x + 1)" by linarith
  then have b0: "0 \<le> binade ?x" by simp
  have inv: "1 / pow2 ?e = of_int (2 ^ nat (- ?e))"
    using b by (auto simp add: pow2_def)
  have "?x / pow2 ?e = ?x * (1 / pow2 ?e)" by simp
  also have "\<dots> = of_int (i * 2 ^ nat (- ?e))"
    unfolding inv by simp
  finally have r: "round_half_even (?x / pow2 ?e) = i * 2 ^ nat (- ?e)"
    by (simp only: round_half_even_int)
  have again: "of_int (i * 2 ^ nat (- ?e)) * pow2 ?e = ?x"
    using inv pow2_pos [of ?e] by (simp add: field_simps)
  have big: "\<bar>?x\<bar> < pow2 1024"
    using ai pow2_less_iff [of 53 1024] by linarith
  have m: "max ?e (- 1074) = ?e" using b0 by simp
  show ?thesis
    using x0 big unfolding float64_round_def Let_def m r again
    by (simp add: abs_less_iff not_le)
qed

lemma float64_round_numeral [simp]:
  "numeral k < (2 :: int) ^ 53 \<Longrightarrow> float64_round (numeral k) = Finite (numeral k)"
  using float64_round_int [of "numeral k"] by simp



lemma stopped_trace_fields [simp]:
  "reader (stopped_trace d n) = 0" "reading (stopped_trace d n) = 0"
  "headerWritten (stopped_trace d n)" "\<not> footerWritten (stopped_trace d n)"
  "shutdown (stopped_trace d n)" "fullHead (stopped_trace d n) = 0"
  "ticksEnd (stopped_trace d n) - ticksStart (stopped_trace d n) = d"
  "timeEnd (stopped_trace d n) - timeStart (stopped_trace d n) = n"
  by (simp_all add: stopped_trace_def trace0_def)









subsection \<open>Running a flush and an event\<close>

lemma zeroBuf_fields [simp]:
  "pos zeroBuf = 0" "lastTicks zeroBuf = 0" "link zeroBuf = 0" "length (arr zeroBuf) = 64488"
  by (simp_all add: zeroBuf_def traceBufArrLen_eq)

lemma traceAppend_small: "v < 0x80 \<Longrightarrow> traceAppend [] v = [ucast v]"
  by (subst traceAppend_Nil_rec) (auto simp add: not_le [symmetric])

lemma not_128_le_1 [simp]: "\<not> (128 :: uint64) \<le> 1"
  by (simp add: word_le_nat_alt)

lemma traceAppend_max:
  "traceAppend [] (- 1) = [0xFF, 0xFF, 0xFF, 0xFF, 0xFF, 0xFF, 0xFF, 0xFF, 0xFF, 0x01]"
proof -
  have "traceAppend [] 0xFFFFFFFFFFFFFFFF
      = [0xFF, 0xFF, 0xFF, 0xFF, 0xFF, 0xFF, 0xFF, 0xFF, 0xFF, 0x01]"
    by (simp add: traceAppend.simps)
  moreover have "(- 1 :: uint64) = 0xFFFFFFFFFFFFFFFF" by simp
  ultimately show ?thesis by (simp only:)
qed

lemma Batch_event_length: "length (Batch_event pid tick) \<le> 21"
  using traceAppend_length_le [of "scast pid"] traceAppend_length_le [of tick]
  by (simp add: Batch_event_def traceBytesPerNumber_def)

lemma traceFlush_init_run:
  assumes "length (Batch_event pid (flush_ticks a old now)) \<le> length (arr old)"
  shows "traceFlush_init a old pid now = Inr (fresh_batch a old pid now)"
proof -
  from assms have "arr old \<noteq> []"
    by (auto simp add: Batch_event_def)
  with assms show ?thesis
    by (simp add: traceFlush_init_def Let_def byte'_put varint_put put_bytes_put_bytes
        fresh_batch_def flush_ticks_def Batch_event_def cong: if_cong)
qed

lemma traceFlush_first:
  assumes "empty' tr = 0" and "sysAlloc e \<noteq> 0"
  shows "traceFlush a tr 0 pid e =
     Inr (tr\<lparr>mem := (mem tr)(sysAlloc e \<mapsto> fresh_batch a zeroBuf pid (flush_cputicks e))\<rparr>,
          sysAlloc e)"
proof -
  have "traceFlush_init a zeroBuf pid (flush_cputicks e)
      = Inr (fresh_batch a zeroBuf pid (flush_cputicks e))"
    using Batch_event_length [of pid "flush_ticks a zeroBuf (flush_cputicks e)"]
    by (intro traceFlush_init_run) simp
  with assms show ?thesis
    by (simp add: traceFlush_def traceFlush_take_def ptr_def)
qed

lemma traceEventLocked_write_run:
  assumes stk: "stackID \<noteq> 0 \<or> skip \<le> 0"
    and room: "pos b + length (event_bytes ev (traceEventLocked_narg args stackID skip)
           (event_tickDiff a b (cputicks e)) args @ stack_bytes stackID skip) \<le> length (arr b)"
    and size: "int (length (event_bytes ev (traceEventLocked_narg args stackID skip)
           (event_tickDiff a b (cputicks e)) args @ stack_bytes stackID skip)) \<le> maxSize"
  shows "traceEventLocked_write a h t b maxSize ev stackID skip args e =
     Inr (t,
       if traceEventLocked_narg args stackID skip = 3
       then (put_bytes (b\<lparr>lastTicks := event_ticks a b (cputicks e)\<rparr>)
              (event_bytes ev (traceEventLocked_narg args stackID skip)
                 (event_tickDiff a b (cputicks e)) args @ stack_bytes stackID skip))
            \<lparr>arr := (arr (put_bytes (b\<lparr>lastTicks := event_ticks a b (cputicks e)\<rparr>)
              (event_bytes ev (traceEventLocked_narg args stackID skip)
                 (event_tickDiff a b (cputicks e)) args @ stack_bytes stackID skip)))
               [pos b + 1 := of_int (int (length (event_bytes ev
                   (traceEventLocked_narg args stackID skip)
                   (event_tickDiff a b (cputicks e)) args @ stack_bytes stackID skip)) - 2)]\<rparr>
       else put_bytes (b\<lparr>lastTicks := event_ticks a b (cputicks e)\<rparr>)
              (event_bytes ev (traceEventLocked_narg args stackID skip)
                 (event_tickDiff a b (cputicks e)) args @ stack_bytes stackID skip))"
proof -
  let ?narg = "traceEventLocked_narg args stackID skip"
  let ?td = "event_tickDiff a b (cputicks e)"
  let ?b1 = "b\<lparr>lastTicks := event_ticks a b (cputicks e)\<rparr>"
  let ?hdr = "ev OR push_bit traceArgCountShift ?narg"
  let ?A = "concat (map (traceAppend []) args)"
  let ?S = "stack_bytes stackID skip"
  define len :: "byte list" where "len = (if ?narg = 3 then [0] else [])"
  have ev: "event_bytes ev ?narg ?td args = ?hdr # len @ traceAppend [] ?td @ ?A"
    by (simp add: event_bytes_def len_def)
  from room have r: "pos b + (1 + length len + length (traceAppend [] ?td) + length ?A + length ?S)
      \<le> length (arr b)"
    by (simp add: ev)
  have w2: "byte' ?b1 ?hdr = Inr (put_bytes ?b1 [?hdr])"
    using r by (simp add: byte'_put)
  have w3: "(if ?narg = 3 then varint (put_bytes ?b1 [?hdr]) 0 else Inr (put_bytes ?b1 [?hdr]))
      = Inr (put_bytes ?b1 (?hdr # len))"
  proof (cases "?narg = 3")
    case True
    then have "len = [0]" by (simp add: len_def)
    with True r show ?thesis by (simp add: varint_put put_bytes_put_bytes)
  next
    case False
    then show ?thesis by (simp add: len_def)
  qed
  have w4: "varint (put_bytes ?b1 (?hdr # len)) ?td
      = Inr (put_bytes ?b1 (?hdr # len @ traceAppend [] ?td))"
    using r by (simp add: varint_put put_bytes_put_bytes)
  have w5: "varints (put_bytes ?b1 (?hdr # len @ traceAppend [] ?td)) args
      = Inr (put_bytes ?b1 (event_bytes ev ?narg ?td args))"
    using r by (subst varints_put) (simp_all add: put_bytes_put_bytes ev)
  define E where "E = event_bytes ev ?narg ?td args"
  have len5: "pos ?b1 + length E + length ?S \<le> length (arr ?b1)"
    using room by (simp add: E_def)
  have w6: "(if stackID \<noteq> 0
        then bindE (varint (put_bytes ?b1 E) (ucast stackID)) (\<lambda>b6. Inr (t, b6))
        else if skip = 0
        then bindE (varint (put_bytes ?b1 E) 0) (\<lambda>b6. Inr (t, b6))
        else if 0 < skip then
               bindE (traceStackID h t (mp e)) (\<lambda>(sid, t1).
               bindE (varint (put_bytes ?b1 E) sid) (\<lambda>b6. Inr (t1, b6)))
        else Inr (t, put_bytes ?b1 E))
      = Inr (t, put_bytes ?b1 (E @ ?S))"
  proof -
    consider "stackID \<noteq> 0" | "stackID = 0" "skip = 0" | "stackID = 0" "skip < 0"
      using stk by linarith
    then show ?thesis
    proof cases
      case 1
      then have "?S = traceAppend [] (ucast stackID)" by (simp add: stack_bytes_def)
      with 1 len5 show ?thesis by (simp add: varint_put put_bytes_put_bytes)
    next
      case 2
      then have "?S = [0]" by (simp add: stack_bytes_def)
      with 2 len5 show ?thesis by (simp add: varint_put put_bytes_put_bytes)
    next
      case 3
      then have "?S = []" by (simp add: stack_bytes_def)
      with 3 show ?thesis by simp
    qed
  qed
  have p3: "pos (put_bytes ?b1 (?hdr # len)) - 1 = pos b + 1" if "?narg = 3"
    using that by (simp add: len_def)
  show ?thesis
    unfolding traceEventLocked_write_def Let_def
    apply (fold event_ticks_def event_tickDiff_def)
    apply (simp only: w2 bindE_simps w3 w4 w5 w6 [unfolded E_def] prod.case)
    using size p3 apply (simp cong: if_cong)
    done
qed

subsection \<open>The ticks of a buffer\<close>

lemma traceEventLocked_run_first:
  assumes "empty' tr = 0" and "sysAlloc e \<noteq> 0"
    and "traceEventLocked_write a h (stackTab tr)
           (fresh_batch a zeroBuf pid (flush_cputicks e))
           (2 + 5 * int traceBytesPerNumber + extraBytes) ev stackID skip args e = Inr (t2, b7)"
  shows "traceEventLocked a h tr extraBytes pid 0 ev stackID skip args e =
     Inr (tr\<lparr>stackTab := t2, mem := (mem tr)(sysAlloc e \<mapsto> b7)\<rparr>, sysAlloc e)"
  using assms
  by (simp add: traceEventLocked_def traceEventLocked_room_def traceFlush_first ptr_def Let_def)

lemma traceEventLocked_run_room:
  assumes "bufp \<noteq> 0" and "mem tr bufp = Some b"
    and "2 + 5 * int traceBytesPerNumber + extraBytes \<le> int (length (arr b)) - int (pos b)"
    and "traceEventLocked_write a h (stackTab tr) b
           (2 + 5 * int traceBytesPerNumber + extraBytes) ev stackID skip args e = Inr (t2, b7)"
  shows "traceEventLocked a h tr extraBytes pid bufp ev stackID skip args e =
     Inr (tr\<lparr>stackTab := t2, mem := (mem tr)(bufp \<mapsto> b7)\<rparr>, bufp)"
  using assms
  by (simp add: traceEventLocked_def traceEventLocked_room_def ptr_def Let_def)

lemma example_env_fields [simp]:
  "flush_cputicks (example_env f n) = f" "sysAlloc (example_env f n) = 1"
  "cputicks (example_env f n) = n"
  by (simp_all add: example_env_def)

lemma trace0_fields [simp]:
  "empty' trace0 = 0" "mem trace0 = Map.empty" "stackTab trace0 = traceStackTable0"
  "fullHead trace0 = 0" "fullTail trace0 = 0"
  by (simp_all add: trace0_def)

lemma fresh_batch_fields:
  "pos (fresh_batch a old pid now) = length (Batch_event pid (flush_ticks a old now))"
  "lastTicks (fresh_batch a old pid now) = flush_ticks a old now"
  "link (fresh_batch a old pid now) = 0"
  "length (Batch_event pid (flush_ticks a old now)) \<le> length (arr old)
     \<Longrightarrow> length (arr (fresh_batch a old pid now)) = length (arr old)"
  "length (Batch_event pid (flush_ticks a old now)) \<le> length (arr old)
     \<Longrightarrow> take (length (Batch_event pid (flush_ticks a old now))) (arr (fresh_batch a old pid now))
        = Batch_event pid (flush_ticks a old now)"
  by (simp_all add: fresh_batch_def put_bytes_def)

lemma first_batch:
  "flush_ticks Amd64 zeroBuf 6400 = 100" "Batch_event 0 100 = [0x41, 0, 100]"
  by (simp_all add: flush_ticks_def Batch_event_def traceAppend_small)

lemma first_event:
  "traceEventLocked Amd64 h trace0 0 0 0 traceEvGoBlock 0 (- 1) [] (example_env 6400 6401) =
     Inr (trace0\<lparr>stackTab := traceStackTable0,
            mem := [1 \<mapsto> put_bytes ((fresh_batch Amd64 zeroBuf 0 6400)\<lparr>lastTicks := 101\<rparr>) [20, 1]]\<rparr>, 1)"
  apply (rule traceEventLocked_run_first [THEN trans])
     apply simp
    apply simp
   apply (rule traceEventLocked_write_run)
  apply (simp_all add: fresh_batch_fields first_batch traceEventLocked_narg_def event_bytes_def
      event_tickDiff_def event_ticks_def stack_bytes_def traceAppend_small traceEvGoBlock_def
      traceBytesPerNumber_def)
  done


lemma first_buffer:
  "pos (fresh_batch Amd64 zeroBuf 0 6400) = 3"
  "lastTicks (fresh_batch Amd64 zeroBuf 0 6400) = 100"
  "length (arr (fresh_batch Amd64 zeroBuf 0 6400)) = 64488"
  "take 3 (arr (fresh_batch Amd64 zeroBuf 0 6400)) = [0x41, 0, 100]"
proof -
  show "pos (fresh_batch Amd64 zeroBuf 0 6400) = 3"
    "lastTicks (fresh_batch Amd64 zeroBuf 0 6400) = 100"
    "length (arr (fresh_batch Amd64 zeroBuf 0 6400)) = 64488"
    by (simp_all add: fresh_batch_fields first_batch)
  have "length (Batch_event 0 (flush_ticks Amd64 zeroBuf 6400)) = 3"
    by (simp add: first_batch)
  with fresh_batch_fields(5) [of 0 Amd64 zeroBuf 6400]
  show "take 3 (arr (fresh_batch Amd64 zeroBuf 0 6400)) = [0x41, 0, 100]"
    by (simp add: first_batch numeral_3_eq_3)
qed

lemma second_event:
  "traceEventLocked Amd64 h
     (trace0\<lparr>stackTab := traceStackTable0,
        mem := [1 \<mapsto> put_bytes ((fresh_batch Amd64 zeroBuf 0 6400)\<lparr>lastTicks := 101\<rparr>) [20, 1]]\<rparr>)
     0 0 1 traceEvGoBlock 0 (- 1) [] (example_env 6400 6402) =
   Inr (trace0\<lparr>stackTab := traceStackTable0,
          mem := [1 \<mapsto> put_bytes ((fresh_batch Amd64 zeroBuf 0 6400)\<lparr>lastTicks := 100\<rparr>)
                    ([20, 1] @ 20 # traceAppend [] (- 1))]\<rparr>, 1)"
  apply (rule traceEventLocked_run_room [THEN trans])
      apply simp
     apply simp
    apply (simp add: first_buffer traceBytesPerNumber_def)
   apply (rule traceEventLocked_write_run)
     apply (simp_all add: first_buffer traceEventLocked_narg_def event_bytes_def
      event_tickDiff_def event_ticks_def stack_bytes_def traceAppend_max traceEvGoBlock_def
      traceBytesPerNumber_def put_bytes_put_bytes)
  done

text \<open>
  Claim C1 does not hold of the code. \<^verbatim>\<open>traceEventLocked\<close> corrects the tick only when
  the divided clock equals \<^verbatim>\<open>lastTicks\<close>; once it has written \<^verbatim>\<open>lastTicks + 1\<close>, a
  second event in the same division interval finds the divided clock one below
  \<^verbatim>\<open>lastTicks\<close>, the difference wraps to \<open>2\<^sup>6\<^sup>4 - 1\<close>, and \<^verbatim>\<open>lastTicks\<close> goes back.
  On amd64, with \<^verbatim>\<open>cputicks()\<close> reading 6400 in the flush, 6401 in the first event and 6402
  in the second (all 100 after the division by 64): the batch opens at tick 100, the
  first event gets tick 101, the second gets tick 100 and writes the difference
  \<open>2\<^sup>6\<^sup>4 - 1\<close> in ten bytes.
\<close>

theorem traceEventLocked_ticks_go_back:
  "\<exists>tr1 tr2 b1 b2.
     traceEventLocked Amd64 h trace0 0 0 0 traceEvGoBlock 0 (- 1) [] (example_env 6400 6401)
       = Inr (tr1, 1)
   \<and> mem tr1 1 = Some b1 \<and> lastTicks b1 = 101
   \<and> traceEventLocked Amd64 h tr1 0 0 1 traceEvGoBlock 0 (- 1) [] (example_env 6400 6402)
       = Inr (tr2, 1)
   \<and> mem tr2 1 = Some b2 \<and> lastTicks b2 = 100
   \<and> take (pos b2) (arr b2) =
       [0x41, 0, 100, 20, 1, 20, 0xFF, 0xFF, 0xFF, 0xFF, 0xFF, 0xFF, 0xFF, 0xFF, 0xFF, 0x01]"
proof -
  let ?f1 = "(fresh_batch Amd64 zeroBuf 0 6400)\<lparr>lastTicks := 101\<rparr>"
  let ?f2 = "(fresh_batch Amd64 zeroBuf 0 6400)\<lparr>lastTicks := 100\<rparr>"
  let ?bs = "[20, 1] @ 20 # traceAppend [] (- 1 :: uint64)"
  let ?B1 = "put_bytes ?f1 [20, 1]"
  let ?B2 = "put_bytes ?f2 ?bs"
  let ?T1 = "trace0\<lparr>stackTab := traceStackTable0, mem := [1 \<mapsto> ?B1]\<rparr>"
  let ?T2 = "trace0\<lparr>stackTab := traceStackTable0, mem := [1 \<mapsto> ?B2]\<rparr>"
  have m1: "mem ?T1 1 = Some ?B1" and l1: "lastTicks ?B1 = 101"
    and m2: "mem ?T2 1 = Some ?B2" and l2: "lastTicks ?B2 = 100"
    by simp_all
  have "take (pos ?f2 + length ?bs) (arr (put_bytes ?f2 ?bs)) = take (pos ?f2) (arr ?f2) @ ?bs"
    by (rule put_bytes_take_pos) (simp add: first_buffer traceAppend_max)
  then have t2: "take (pos ?B2) (arr ?B2) =
       [0x41, 0, 100, 20, 1, 20, 0xFF, 0xFF, 0xFF, 0xFF, 0xFF, 0xFF, 0xFF, 0xFF, 0xFF, 0x01]"
    by (simp add: first_buffer traceAppend_max)
  show ?thesis
    apply (rule exI [of _ ?T1])
    apply (rule exI [of _ ?T2])
    apply (rule exI [of _ ?B1])
    apply (rule exI [of _ ?B2])
    apply (intro conjI)
          apply (rule first_event)
         apply (rule m1)
        apply (rule l1)
       apply (rule second_event)
      apply (rule m2)
     apply (rule l2)
    apply (rule t2)
    done
qed

subsection \<open>The length byte of an event\<close>

lemma traceEventLocked_Inr:
  assumes "traceEventLocked a h tr extraBytes pid bufp ev stackID skip args e = Inr (tr', bp)"
  shows "\<exists>tr1 b t2 b7.
      traceEventLocked_room a tr (2 + 5 * int traceBytesPerNumber + extraBytes) pid bufp e
        = Inr (tr1, bp)
    \<and> bp \<noteq> 0 \<and> mem tr1 bp = Some b
    \<and> traceEventLocked_write a h (stackTab tr1) b
          (2 + 5 * int traceBytesPerNumber + extraBytes) ev stackID skip args e = Inr (t2, b7)
    \<and> tr' = tr1\<lparr>stackTab := t2, mem := (mem tr1)(bp \<mapsto> b7)\<rparr>"
  using assms
  by (auto simp add: traceEventLocked_def Let_def bindE_Inr_iff ptr_Inr_iff)

lemma narg3_header: "ev OR push_bit traceArgCountShift (3 :: byte) = ev OR 0xC0"
  by (simp add: traceArgCountShift_def)














subsection \<open>The truncation of a string\<close>

lemma traceString_write_truncated:
  assumes fit: "pos b + 1 + length (traceAppend [] i) + length (traceAppend [] (of_nat room))
      \<le> length (arr b)"
    and room: "room = length (arr b) - (pos b + 1 + length (traceAppend [] i))"
    and trunc: "room < length s + traceBytesPerNumber"
    and le: "room \<le> length s"
  shows "traceString_write b i s =
     Inr (put_bytes b (traceEvString # traceAppend [] i @ traceAppend [] (of_nat room)
            @ take (room - length (traceAppend [] (of_nat room))) s))"
proof -
  let ?I = "traceAppend [] i"
  let ?R = "traceAppend [] (of_nat room :: uint64)"
  define b2 where "b2 = put_bytes b (traceEvString # ?I)"
  define b3 where "b3 = put_bytes b (traceEvString # ?I @ ?R)"
  have w1: "byte' b traceEvString = Inr (put_bytes b [traceEvString])"
    using fit by (simp add: byte'_put)
  have w2: "varint (put_bytes b [traceEvString]) i = Inr b2"
    using fit by (simp add: varint_put put_bytes_put_bytes b2_def)
  have l2: "length (arr b2) = length (arr b)" and p2: "pos b2 = pos b + 1 + length ?I"
    using fit by (simp_all add: b2_def)
  have r: "int (length (arr b2)) - int (pos b2) = int room"
    using fit by (simp add: l2 p2 room)
  have w3: "varint b2 (of_nat room) = Inr b3"
    using fit by (simp add: varint_put put_bytes_put_bytes b2_def b3_def)
  have l3: "length (arr b3) = length (arr b)"
    and p3: "pos b3 = pos b + 1 + length ?I + length ?R"
    using fit by (simp_all add: b3_def)
  have left: "length (arr b3) - pos b3 = room - length ?R"
    using fit by (simp add: l3 p3 room)
  have tk: "take (length (arr b3) - pos b3) (take room s) = take (room - length ?R) s"
    by (simp only: left take_take) (simp add: min_def)
  have "\<not> length (arr b3) < pos b3"
    using fit by (simp add: l3 p3)
  then have "copy_in b3 (take room s)
      = Inr (put_bytes b3 (take (length (arr b3) - pos b3) (take room s)))"
    by (simp only: copy_in_put if_False)
  also have "put_bytes b3 (take (length (arr b3) - pos b3) (take room s))
      = put_bytes b3 (take (room - length ?R) s)"
    by (simp only: tk)
  also have "put_bytes b3 (take (room - length ?R) s)
      = put_bytes b ((traceEvString # ?I @ ?R) @ take (room - length ?R) s)"
    unfolding b3_def using fit by (intro put_bytes_put_bytes) simp
  finally have w4: "copy_in b3 (take room s)
      = Inr (put_bytes b (traceEvString # ?I @ ?R @ take (room - length ?R) s))"
    by simp
  have trunc': "int room < int (length s) + int traceBytesPerNumber"
    using trunc by linarith
  have le': "\<not> int (length s) < int room"
    using le by linarith
  show ?thesis
    unfolding traceString_write_def
    by (simp only: w1 bindE_simps w2 Let_def r trunc' if_True of_int_of_nat_eq w3
        of_nat_less_0_iff le' simp_thms nat_int w4 if_False)
qed


lemma traceString_write_panics:
  assumes fit: "pos b + 1 + length (traceAppend [] i) + length (traceAppend [] (of_nat room))
      \<le> length (arr b)"
    and room: "room = length (arr b) - (pos b + 1 + length (traceAppend [] i))"
    and trunc: "room < length s + traceBytesPerNumber"
    and gt: "length s < room"
  shows "traceString_write b i s = Inl SliceBoundsOutOfRange"
proof -
  let ?I = "traceAppend [] i"
  let ?R = "traceAppend [] (of_nat room :: uint64)"
  define b2 where "b2 = put_bytes b (traceEvString # ?I)"
  define b3 where "b3 = put_bytes b (traceEvString # ?I @ ?R)"
  have w1: "byte' b traceEvString = Inr (put_bytes b [traceEvString])"
    using fit by (simp add: byte'_put)
  have w2: "varint (put_bytes b [traceEvString]) i = Inr b2"
    using fit by (simp add: varint_put put_bytes_put_bytes b2_def)
  have l2: "length (arr b2) = length (arr b)" and p2: "pos b2 = pos b + 1 + length ?I"
    using fit by (simp_all add: b2_def)
  have r: "int (length (arr b2)) - int (pos b2) = int room"
    using fit by (simp add: l2 p2 room)
  have w3: "varint b2 (of_nat room) = Inr b3"
    using fit by (simp add: varint_put put_bytes_put_bytes b2_def b3_def)
  have trunc': "int room < int (length s) + int traceBytesPerNumber"
    using trunc by linarith
  have gt': "int (length s) < int room"
    using gt by linarith
  show ?thesis
    unfolding traceString_write_def
    by (simp only: w1 bindE_simps w2 Let_def r trunc' if_True of_int_of_nat_eq w3
        of_nat_less_0_iff gt' simp_thms)
qed

lemma traceString_run_first:
  assumes "s \<noteq> []" and "strings tr s = None" and "empty' tr = 0" and "sysAlloc e \<noteq> 0"
  shows "traceString a tr 0 pid s e =
     bindE (traceString_write (fresh_batch a zeroBuf pid (flush_cputicks e)) (stringSeq tr + 1) s)
       (\<lambda>b4. Inr (tr\<lparr>stringSeq := stringSeq tr + 1,
                      strings := (strings tr)(s \<mapsto> stringSeq tr + 1),
                      mem := (mem tr)(sysAlloc e \<mapsto> b4)\<rparr>, stringSeq tr + 1, sysAlloc e))"
  using assms
  by (simp add: traceString_def Let_def traceEventLocked_room_def traceFlush_first ptr_def)

lemma traceAppend_64483: "traceAppend [] 64483 = [0xE3, 0xF7, 0x03]"
  by (simp add: traceAppend.simps)


lemma long_string_room:
  "pos (fresh_batch Amd64 zeroBuf 0 6400) + 1 + length (traceAppend [] (1 :: uint64))
     + length (traceAppend [] (of_nat 64483 :: uint64))
   \<le> length (arr (fresh_batch Amd64 zeroBuf 0 6400))"
  "(64483 :: nat) = length (arr (fresh_batch Amd64 zeroBuf 0 6400))
     - (pos (fresh_batch Amd64 zeroBuf 0 6400) + 1 + length (traceAppend [] (1 :: uint64)))"
  "(64483 :: nat) < length (replicate 70000 (0x61 :: byte)) + traceBytesPerNumber"
  "(64483 :: nat) \<le> length (replicate 70000 (0x61 :: byte))"
  by (simp_all add: first_buffer traceAppend_small traceAppend_64483 traceBytesPerNumber_def)

lemma long_string_bytes:
  "traceEvString # traceAppend [] 1 @ traceAppend [] (of_nat 64483)
     @ take (64483 - length (traceAppend [] (of_nat 64483 :: uint64))) (replicate 70000 0x61)
   = 0x25 # 0x01 # 0xE3 # 0xF7 # 0x03 # replicate 64480 0x61"
  by (simp add: traceAppend_small traceAppend_64483 traceEvString_def)

lemma long_string_write:
  "traceString_write (fresh_batch Amd64 zeroBuf 0 6400) 1 (replicate 70000 0x61) =
     Inr (put_bytes (fresh_batch Amd64 zeroBuf 0 6400)
            (0x25 # 0x01 # 0xE3 # 0xF7 # 0x03 # replicate 64480 0x61))"
  using traceString_write_truncated [OF long_string_room]
  by (simp only: long_string_bytes)

lemma long_string_buffer:
  "arr (put_bytes (fresh_batch Amd64 zeroBuf 0 6400)
          (0x25 # 0x01 # 0xE3 # 0xF7 # 0x03 # replicate 64480 0x61)) =
     [0x41, 0, 100, 0x25, 0x01, 0xE3, 0xF7, 0x03] @ replicate 64480 0x61"
  by (simp add: put_bytes_def first_buffer)

lemma short_string_room:
  "(64483 :: nat) < length (replicate 64480 (0x61 :: byte)) + traceBytesPerNumber"
  "length (replicate 64480 (0x61 :: byte)) < (64483 :: nat)"
  by (simp_all add: traceBytesPerNumber_def)

lemma short_string_panics:
  "traceString Amd64 trace0 0 0 (replicate 64480 0x61) (example_env 6400 0)
     = Inl SliceBoundsOutOfRange"
proof -
  have seq: "stringSeq trace0 + 1 = 1" "strings trace0 (replicate 64480 0x61) = None"
    by (simp_all add: trace0_def)
  have ne: "replicate 64480 (0x61 :: byte) \<noteq> []"
    by simp
  have "traceString_write (fresh_batch Amd64 zeroBuf 0 6400) 1 (replicate 64480 0x61)
      = Inl SliceBoundsOutOfRange"
    by (rule traceString_write_panics [OF long_string_room(1,2) short_string_room])
  then show ?thesis
    by (subst traceString_run_first) (simp_all add: seq ne)
qed

text \<open>
  Claim C10 does not hold of the code. \<^verbatim>\<open>traceString\<close> stays within the buffer, but it
  takes \<^verbatim>\<open>room\<close> before it writes the length, so the length it declares counts the
  bytes of the length itself. With a string of 70000 bytes on a processor without a
  buffer: after the flush and the bytes \<open>0x25 0x01\<close> the room is 64483; the event
  declares 64483 bytes (\<open>E3 F7 03\<close>), the copy has room for 64480, and the buffer is
  full. With a string of 64480 bytes the room 64483 is below \<^verbatim>\<open>len(s) + 10\<close> and above
  \<^verbatim>\<open>len(s)\<close>, and \<^verbatim>\<open>s[:slen]\<close> panics.
\<close>

theorem traceString_declares_more_than_it_copies:
  "\<exists>tr' b'.
      traceString Amd64 trace0 0 0 (replicate 70000 0x61) (example_env 6400 0) = Inr (tr', 1, 1)
    \<and> mem tr' 1 = Some b' \<and> pos b' = 64488 \<and> length (arr b') = 64488
    \<and> take 5 (arr b') = [0x41, 0, 100, 0x25, 0x01]
    \<and> take 3 (drop 5 (arr b')) = traceAppend [] 64483
    \<and> drop 8 (arr b') = replicate 64480 0x61
    \<and> traceString Amd64 trace0 0 0 (replicate 64480 0x61) (example_env 6400 0)
        = Inl SliceBoundsOutOfRange"
proof -
  let ?B = "put_bytes (fresh_batch Amd64 zeroBuf 0 6400)
          (0x25 # 0x01 # 0xE3 # 0xF7 # 0x03 # replicate 64480 0x61)"
  let ?T = "trace0\<lparr>stringSeq := stringSeq trace0 + 1,
                   strings := (strings trace0)(replicate 70000 0x61 \<mapsto> stringSeq trace0 + 1),
                   mem := (mem trace0)(sysAlloc (example_env 6400 0) \<mapsto> ?B)\<rparr>"
  have seq: "stringSeq trace0 + 1 = 1" "strings trace0 (replicate 70000 0x61) = None"
    by (simp_all add: trace0_def)
  have ne: "replicate 70000 (0x61 :: byte) \<noteq> []"
    by simp
  have run: "traceString Amd64 trace0 0 0 (replicate 70000 0x61) (example_env 6400 0)
      = Inr (?T, 1, 1)"
    by (subst traceString_run_first) (simp_all add: seq ne long_string_write)
  have m: "mem ?T 1 = Some ?B" by simp
  have p: "pos ?B = 64488" by (simp add: first_buffer)
  have l: "length (arr ?B) = 64488" by (simp add: long_string_buffer)
  have t5: "take 5 (arr ?B) = [0x41, 0, 100, 0x25, 0x01]"
    by (simp add: long_string_buffer)
  have t3: "take 3 (drop 5 (arr ?B)) = traceAppend [] 64483"
    by (simp add: long_string_buffer traceAppend_64483)
  have d8: "drop 8 (arr ?B) = replicate 64480 0x61"
    by (simp add: long_string_buffer)
  show ?thesis
    apply (rule exI [of _ ?T])
    apply (rule exI [of _ ?B])
    apply (intro conjI)
          apply (rule run)
         apply (rule m)
        apply (rule p)
       apply (rule l)
      apply (rule t5)
      apply (rule t3)
     apply (rule d8)
    apply (rule short_string_panics)
    done
qed

subsection \<open>Every buffer begins with a Batch event\<close>

lemma begins_with_Batch_extend:
  assumes "begins_with_Batch b" and "pos b \<le> pos b'" and "pos b' \<le> length (arr b')"
    and "take (pos b) (arr b') = take (pos b) (arr b)"
  shows "begins_with_Batch b'"
proof -
  from assms(1) obtain pid tick where "0 < pos b"
    and p: "prefix (Batch_event pid tick) (take (pos b) (arr b))"
    by (auto simp add: begins_with_Batch_def)
  have "take (pos b) (arr b') = take (pos b) (take (pos b') (arr b'))"
    using assms(2) by (simp add: min_def)
  then have "prefix (take (pos b) (arr b')) (take (pos b') (arr b'))"
    by (metis take_is_prefix)
  with p assms(4) have "prefix (Batch_event pid tick) (take (pos b') (arr b'))"
    by (metis prefix_order.trans)
  with \<open>0 < pos b\<close> assms(2,3) show ?thesis
    by (auto simp add: begins_with_Batch_def)
qed

lemma begins_with_Batch_wrote:
  assumes "begins_with_Batch b" and "wrote b bs b'"
  shows "begins_with_Batch b'"
  using assms(1)
proof (rule begins_with_Batch_extend)
  show "pos b \<le> pos b'" using wrote_pos [OF assms(2)] by simp
  show "pos b' \<le> length (arr b')" using assms(2) by (rule wrote_pos_le)
  show "take (pos b) (arr b') = take (pos b) (arr b)" using assms(2) by (rule wrote_take) simp
qed

lemma begins_with_Batch_same_bytes:
  "begins_with_Batch b \<Longrightarrow> same_bytes b b' \<Longrightarrow> begins_with_Batch b'"
  by (simp add: begins_with_Batch_def same_bytes_def)

lemma begins_with_Batch_lastTicks [simp]:
  "begins_with_Batch (b\<lparr>lastTicks := t\<rparr>) = begins_with_Batch b"
  by (simp add: begins_with_Batch_def)

lemma begins_with_Batch_fresh:
  assumes "length (Batch_event pid (flush_ticks a old now)) \<le> length (arr old)"
  shows "begins_with_Batch (fresh_batch a old pid now)"
  using assms
  by (auto simp add: begins_with_Batch_def fresh_batch_def put_bytes_def Batch_event_def)

lemma mem_kept_Batch:
  assumes "mem_kept tr tr1" and "\<forall>p b. mem tr p = Some b \<longrightarrow> begins_with_Batch b"
  shows "\<forall>p b. mem tr1 p = Some b \<longrightarrow> begins_with_Batch b"
  using assms unfolding mem_kept_def by (metis begins_with_Batch_same_bytes)

lemma traceFlush_Batch:
  assumes "traceFlush a tr b pid e = Inr (tr2, nb)"
    and "\<forall>p b. mem tr p = Some b \<longrightarrow> begins_with_Batch b"
  shows "\<forall>p b. mem tr2 p = Some b \<longrightarrow> begins_with_Batch b"
proof -
  from traceFlush_Inr [OF assms(1)] obtain old tr1 where k: "mem_kept tr tr1"
    and len: "length (Batch_event pid (flush_ticks a old (flush_cputicks e))) \<le> length (arr old)"
    and new: "mem tr2 nb = Some (fresh_batch a old pid (flush_cputicks e))"
    and rest: "\<forall>p. p \<noteq> nb \<longrightarrow> mem tr2 p = mem tr1 p"
    by blast
  from mem_kept_Batch [OF k assms(2)] have i1: "\<forall>p b. mem tr1 p = Some b \<longrightarrow> begins_with_Batch b" .
  show ?thesis
  proof (intro allI impI)
    fix p b assume m: "mem tr2 p = Some b"
    show "begins_with_Batch b"
    proof (cases "p = nb")
      case True
      with m new have "b = fresh_batch a old pid (flush_cputicks e)" by simp
      with len show ?thesis by (simp add: begins_with_Batch_fresh)
    next
      case False
      with rest m i1 show ?thesis by simp
    qed
  qed
qed

lemma traceEventLocked_room_Batch:
  assumes "traceEventLocked_room a tr maxSize pid bufp e = Inr (tr1, bp)"
    and "\<forall>p b. mem tr p = Some b \<longrightarrow> begins_with_Batch b"
  shows "\<forall>p b. mem tr1 p = Some b \<longrightarrow> begins_with_Batch b"
proof -
  from assms(1) have "traceFlush a tr bufp pid e = Inr (tr1, bp) \<or> tr1 = tr"
    by (auto simp add: traceEventLocked_room_def bindE_Inr_iff split: if_splits)
  then show ?thesis
    using assms(2) traceFlush_Batch by blast
qed

lemma mem_update_Batch:
  assumes "\<forall>p b. mem tr p = Some b \<longrightarrow> begins_with_Batch b" and "begins_with_Batch b'"
    and "mem tr' = (mem tr)(q \<mapsto> b')"
  shows "\<forall>p b. mem tr' p = Some b \<longrightarrow> begins_with_Batch b"
  using assms by auto

lemma traceEventLocked_Batch:
  assumes "traceEventLocked a h tr extraBytes pid bufp ev stackID skip args e = Inr (tr', bp)"
    and inv: "\<forall>p b. mem tr p = Some b \<longrightarrow> begins_with_Batch b"
  shows "\<forall>p b. mem tr' p = Some b \<longrightarrow> begins_with_Batch b"
proof -
  let ?max = "2 + 5 * int traceBytesPerNumber + extraBytes"
  from traceEventLocked_Inr [OF assms(1)] obtain tr1 b t2 b7 where
    room: "traceEventLocked_room a tr ?max pid bufp e = Inr (tr1, bp)"
    and b: "mem tr1 bp = Some b"
    and w: "traceEventLocked_write a h (stackTab tr1) b ?max ev stackID skip args e = Inr (t2, b7)"
    and tr': "tr' = tr1\<lparr>stackTab := t2, mem := (mem tr1)(bp \<mapsto> b7)\<rparr>"
    by blast
  from traceEventLocked_room_Batch [OF room inv]
  have i1: "\<forall>p b. mem tr1 p = Some b \<longrightarrow> begins_with_Batch b" .
  with b have bb: "begins_with_Batch b" by blast
  let ?b1 = "b\<lparr>lastTicks := event_ticks a b (cputicks e)\<rparr>"
  from traceEventLocked_write_Inr [OF w]
  have "\<exists>bs b6. wrote ?b1 bs b6
      \<and> (b7 = b6 \<or> (\<exists>v. b7 = b6\<lparr>arr := (arr b6)[pos b + 1 := v]\<rparr>))"
    apply (elim exE conjE)
    apply (rule exI, rule exI, rule conjI, assumption)
    apply (simp split: if_splits)
    apply blast
    done
  then obtain bs b6 where
    wr: "wrote ?b1 bs b6"
    and b7: "b7 = b6 \<or> (\<exists>v. b7 = b6\<lparr>arr := (arr b6)[pos b + 1 := v]\<rparr>)"
    by blast
  from bb have "begins_with_Batch ?b1" by simp
  from begins_with_Batch_wrote [OF this wr] have b6: "begins_with_Batch b6" .
  have p6: "pos b \<le> pos b6" using wrote_pos [OF wr] by simp
  have "begins_with_Batch b7"
  proof -
    from b7 show ?thesis
    proof
      assume "b7 = b6" with b6 show ?thesis by simp
    next
      assume "\<exists>v. b7 = b6\<lparr>arr := (arr b6)[pos b + 1 := v]\<rparr>"
      then obtain v where v: "b7 = b6\<lparr>arr := (arr b6)[pos b + 1 := v]\<rparr>" by blast
      have "take (pos b) (arr b7) = take (pos b) (arr b6)"
        by (simp add: v)
      also have "\<dots> = take (pos b) (arr ?b1)"
        using wrote_take [OF wr, of "pos b"] by simp
      finally have t: "take (pos ?b1) (arr b7) = take (pos ?b1) (arr ?b1)" by simp
      have "pos ?b1 \<le> pos b7" "pos b7 \<le> length (arr b7)"
        using p6 wrote_pos_le [OF wr] by (simp_all add: v)
      with \<open>begins_with_Batch ?b1\<close> t show ?thesis
        by (intro begins_with_Batch_extend [of ?b1 b7])
    qed
  qed
  with i1 show ?thesis
    by (intro mem_update_Batch [of tr1 b7 tr' bp]) (simp_all add: tr')
qed


lemma traceString_write_wrote:
  assumes "traceString_write b i s = Inr b4"
  shows "\<exists>bs. wrote b bs b4"
proof -
  from assms have "\<exists>b1 b2 b3 v src. byte' b traceEvString = Inr b1 \<and> varint b1 i = Inr b2
      \<and> varint b2 v = Inr b3 \<and> copy_in b3 src = Inr b4"
    by (auto simp add: traceString_write_def Let_def bindE_Inr_iff split: if_splits)
  then obtain b1 b2 b3 v src where "byte' b traceEvString = Inr b1" "varint b1 i = Inr b2"
    "varint b2 v = Inr b3" "copy_in b3 src = Inr b4"
    by blast
  then have "wrote b [traceEvString] b1" "wrote b1 (traceAppend [] i) b2"
    "wrote b2 (traceAppend [] v) b3" "wrote b3 (take (length (arr b3) - pos b3) src) b4"
    by (simp_all add: wrote_byte wrote_varint wrote_copy_in)
  then show ?thesis
    by (meson wrote_trans)
qed

lemma traceString_Batch:
  assumes "traceString a tr bufp pid s e = Inr (tr', i, bp)"
    and inv: "\<forall>p b. mem tr p = Some b \<longrightarrow> begins_with_Batch b"
  shows "\<forall>p b. mem tr' p = Some b \<longrightarrow> begins_with_Batch b"
proof (cases "s = [] \<or> strings tr s \<noteq> None")
  case True
  with assms(1) have "tr' = tr"
    by (auto simp add: traceString_def split: if_splits)
  with inv show ?thesis by simp
next
  case False
  let ?tr1 = "tr\<lparr>stringSeq := stringSeq tr + 1, strings := (strings tr)(s \<mapsto> stringSeq tr + 1)\<rparr>"
  let ?size = "1 + 2 * int traceBytesPerNumber + int (length s)"
  from False assms(1) have "\<exists>tr2 b b4.
        traceEventLocked_room a ?tr1 ?size pid bufp e = Inr (tr2, bp)
      \<and> mem tr2 bp = Some b \<and> traceString_write b (stringSeq tr + 1) s = Inr b4
      \<and> tr' = tr2\<lparr>mem := (mem tr2)(bp \<mapsto> b4)\<rparr>"
    by (auto simp add: traceString_def Let_def bindE_Inr_iff ptr_Inr_iff)
  then obtain tr2 b b4 where
    room: "traceEventLocked_room a ?tr1 ?size pid bufp e = Inr (tr2, bp)"
    and b: "mem tr2 bp = Some b" and w: "traceString_write b (stringSeq tr + 1) s = Inr b4"
    and tr': "tr' = tr2\<lparr>mem := (mem tr2)(bp \<mapsto> b4)\<rparr>"
    by blast
  from inv have "\<forall>p b. mem ?tr1 p = Some b \<longrightarrow> begins_with_Batch b" by simp
  from traceEventLocked_room_Batch [OF room this]
  have i2: "\<forall>p b. mem tr2 p = Some b \<longrightarrow> begins_with_Batch b" .
  with b have "begins_with_Batch b" by blast
  moreover from traceString_write_wrote [OF w] obtain bs where "wrote b bs b4" by blast
  ultimately have "begins_with_Batch b4" by (rule begins_with_Batch_wrote)
  with i2 show ?thesis
    by (rule mem_update_Batch) (simp add: tr')
qed

lemma mem_set_site [simp]: "mem (set_site tr s v) = mem tr"
  by (cases s) (simp_all add: set_site_def)

lemma bufs_run_Batch:
  assumes "bufs_run a h tr"
  shows "\<forall>p b. mem tr p = Some b \<longrightarrow> begins_with_Batch b"
  using assms
proof (induction rule: bufs_run.induct)
  case start
  show ?case by (simp add: trace0_def)
next
  case (owner tr s p)
  then show ?case by simp
next
  case (flush tr p pid e tr1 bp)
  from traceFlush_Batch [OF flush(2) flush(3)] show ?case .
next
  case (event tr extraBytes pid p ev stackID skip args e tr1 bp)
  from traceEventLocked_Batch [OF event(2) event(3)] show ?case .
next
  case (string tr p pid str e tr1 i bp)
  from traceString_Batch [OF string(2) string(3)] show ?case .
next
  case (append_byte tr p b x b1)
  from append_byte(2) have "mem tr p = Some b" by (simp add: ptr_Inr_iff)
  with append_byte(4) have "begins_with_Batch b" by blast
  with wrote_byte [OF append_byte(3)] have "begins_with_Batch b1"
    by (metis begins_with_Batch_wrote)
  with append_byte(4) show ?case by auto
next
  case (append_varint tr p b v b1)
  from append_varint(2) have "mem tr p = Some b" by (simp add: ptr_Inr_iff)
  with append_varint(4) have "begins_with_Batch b" by blast
  with wrote_varint [OF append_varint(3)] have "begins_with_Batch b1"
    by (metis begins_with_Batch_wrote)
  with append_varint(4) show ?case by auto
next
  case (append_copy tr p b src b1)
  from append_copy(2) have "mem tr p = Some b" by (simp add: ptr_Inr_iff)
  with append_copy(4) have "begins_with_Batch b" by blast
  with wrote_copy_in [OF append_copy(3)] have "begins_with_Batch b1"
    by (metis begins_with_Batch_wrote)
  with append_copy(4) show ?case by auto
next
  case (queue tr p tr1)
  from mem_kept_Batch [OF traceFullQueue_Inr [OF queue(2)] queue(3)] show ?case .
next
  case (dequeue tr tr1 b)
  from mem_kept_Batch [OF traceFullDequeue_Inr [OF dequeue(2)] dequeue(3)] show ?case by simp
next
  case (recycle tr tr1)
  from mem_kept_Batch [OF ReadTrace_recycle_Inr [OF recycle(2)] recycle(3)] show ?case .
qed

lemma traceFlush_opens:
  assumes "traceFlush a tr bufp pid e = Inr (tr2, nb)"
  shows "\<exists>buf. nb \<noteq> 0 \<and> mem tr2 nb = Some buf \<and> link buf = 0
      \<and> pos buf \<le> length (arr buf)
      \<and> take (pos buf) (arr buf) =
          (traceEvBatch OR push_bit traceArgCountShift 1)
            # traceAppend [] (scast pid) @ traceAppend [] (lastTicks buf)"
proof -
  from traceFlush_Inr [OF assms] obtain old where nb: "nb \<noteq> 0"
    and len: "length (Batch_event pid (flush_ticks a old (flush_cputicks e))) \<le> length (arr old)"
    and new: "mem tr2 nb = Some (fresh_batch a old pid (flush_cputicks e))"
    by blast
  let ?buf = "fresh_batch a old pid (flush_cputicks e)"
  have "take (pos ?buf) (arr ?buf) = Batch_event pid (lastTicks ?buf)"
    using fresh_batch_fields(5) [OF len] by (simp add: fresh_batch_fields)
  moreover have "pos ?buf \<le> length (arr ?buf)"
    using len by (simp add: fresh_batch_fields)
  ultimately show ?thesis
    using nb new by (simp add: Batch_event_def fresh_batch_fields(3))
qed

lemma set_site_queue_fields [simp]:
  "fullHead (set_site tr s v) = fullHead tr" "fullTail (set_site tr s v) = fullTail tr"
  "empty' (set_site tr s v) = empty' tr"
  by (cases s; simp add: set_site_def)+

lemma get_set_site [simp]: "get_site (set_site tr s v) s = v"
  by (cases s) (simp_all add: set_site_def get_site_def)


text \<open>
  Claim C2. \<^verbatim>\<open>traceFlush\<close> hands out a buffer that holds, from offset 0 to \<^verbatim>\<open>pos\<close>,
  exactly the header byte of event type 1 with argument count 1 (\<open>0x41\<close>), the
  processor id and the opening tick, which is also the buffer's \<^verbatim>\<open>lastTicks\<close>, as two
  base-128 numbers. In every state the buffer operations can reach, every buffer,
  and so every buffer of the full queue, has \<^verbatim>\<open>pos > 0\<close> and begins with a Batch event.
\<close>

theorem buffers_begin_with_Batch:
  assumes "bufs_run a h tr"
  shows "(\<forall>bufp pid e tr2 nb. traceFlush a tr bufp pid e = Inr (tr2, nb) \<longrightarrow>
            (\<exists>buf. nb \<noteq> 0 \<and> mem tr2 nb = Some buf \<and> link buf = 0
               \<and> pos buf \<le> length (arr buf)
               \<and> take (pos buf) (arr buf) =
                   (traceEvBatch OR push_bit traceArgCountShift 1)
                     # traceAppend [] (scast pid) @ traceAppend [] (lastTicks buf)))
       \<and> (\<forall>p b. mem tr p = Some b \<longrightarrow> begins_with_Batch b)
       \<and> (\<forall>p b. in_full tr p \<longrightarrow> mem tr p = Some b \<longrightarrow> 0 < pos b \<and> begins_with_Batch b)"
proof -
  have inv: "\<forall>p b. mem tr p = Some b \<longrightarrow> begins_with_Batch b"
    using assms by (rule bufs_run_Batch)
  then have "\<forall>p b. in_full tr p \<longrightarrow> mem tr p = Some b \<longrightarrow> 0 < pos b \<and> begins_with_Batch b"
    by (auto simp add: begins_with_Batch_def)
  with inv show ?thesis
    using traceFlush_opens [of a tr] by blast
qed

lemma flushed_and_queued:
  "\<exists>tr. bufs_run Amd64 (\<lambda>pcs. 0) tr \<and> fullHead tr = 1
     \<and> mem tr 1 = Some (fresh_batch Amd64 zeroBuf 0 6400)"
proof -
  let ?fb = "fresh_batch Amd64 zeroBuf 0 6400"
  let ?X = "trace0\<lparr>mem := (mem trace0)(sysAlloc (example_env 6400 0) \<mapsto> ?fb)\<rparr>"
  let ?S1 = "set_site ?X (PBuf 0) 1"
  have "traceFlush Amd64 trace0 0 0 (example_env 6400 0)
      = Inr (?X, sysAlloc (example_env 6400 0))"
    using traceFlush_first [of trace0 "example_env 6400 0" Amd64 0] by simp
  then have "bufs_run Amd64 (\<lambda>pcs. 0) ?X"
    by (rule bufs_run.flush [OF bufs_run.start])
  then have r1: "bufs_run Amd64 (\<lambda>pcs. 0) ?S1"
    by (rule bufs_run.owner)
  have l: "?fb\<lparr>link := 0\<rparr> = ?fb"
    by (simp add: fresh_batch_def put_bytes_def)
  have q: "traceFullQueue ?S1 (get_site ?S1 (PBuf 0))
      = Inr (?S1\<lparr>mem := (mem ?S1)(1 \<mapsto> ?fb), fullHead := 1, fullTail := 1\<rparr>)"
    by (simp add: traceFullQueue_def ptr_def Let_def l)
  let ?S2 = "set_site (?S1\<lparr>mem := (mem ?S1)(1 \<mapsto> ?fb), fullHead := 1, fullTail := 1\<rparr>) (PBuf 0) 0"
  have "bufs_run Amd64 (\<lambda>pcs. 0) (?S1\<lparr>mem := (mem ?S1)(1 \<mapsto> ?fb), fullHead := 1, fullTail := 1\<rparr>)"
    by (rule bufs_run.queue [OF r1 q])
  then have r2: "bufs_run Amd64 (\<lambda>pcs. 0) ?S2"
    by (rule bufs_run.owner)
  have "fullHead ?S2 = 1" "mem ?S2 1 = Some ?fb"
    by simp_all
  with r2 show ?thesis by blast
qed

theorem buffers_begin_with_Batch_witness:
  "\<exists>tr b. bufs_run Amd64 (\<lambda>pcs. 0) tr \<and> in_full tr 1 \<and> mem tr 1 = Some b
     \<and> take (pos b) (arr b) = [0x41, 0, 100] \<and> 0 < pos b \<and> begins_with_Batch b"
proof -
  from flushed_and_queued obtain tr where r: "bufs_run Amd64 (\<lambda>pcs. 0) tr"
    and h: "fullHead tr = 1" and m: "mem tr 1 = Some (fresh_batch Amd64 zeroBuf 0 6400)"
    by blast
  from h m have f: "in_full tr 1" by (rule in_full.at_head)
  from buffers_begin_with_Batch [OF r] f m
  have "0 < pos (fresh_batch Amd64 zeroBuf 0 6400)
      \<and> begins_with_Batch (fresh_batch Amd64 zeroBuf 0 6400)"
    by blast
  moreover have "take (pos (fresh_batch Amd64 zeroBuf 0 6400)) (arr (fresh_batch Amd64 zeroBuf 0 6400))
      = [0x41, 0, 100]"
    by (simp add: first_buffer)
  ultimately show ?thesis
    using r f m by blast
qed

end
